theory Spec2Isabelle
  imports Complex_Main "HOL-Library.Product_Lexorder"
begin

section \<open>Common data model\<close>

text \<open>
  A score position is the Python tuple \<^verbatim>\<open>(mc, beat)\<close>: a measure index and an exact
  \<^verbatim>\<open>Fraction\<close> inside the measure. Python compares tuples lexicographically, which is
  the order \<open>HOL-Library.Product_Lexorder\<close> puts on pairs.
\<close>

type_synonym position = "int \<times> rat"

text \<open>The exceptions the modelled code can raise.\<close>

datatype py_error =
  AssertionError | IndexError | ValueError | TypeError | ZeroDivisionError | KeyError

datatype PitchType = TPC | MIDI

datatype ChordType =
  MAJOR | MINOR | DIMINISHED | AUGMENTED
  | MAJ_MAJ7 | MAJ_MIN7 | MIN_MAJ7 | MIN_MIN7 | DIM7 | HALF_DIM7 | AUG_MIN7 | AUG_MAJ7

datatype KeyMode = KM_MAJOR | KM_MINOR

text \<open>
  The fields of \<^verbatim>\<open>Note\<close> are those its constructor takes in
  \<^verbatim>\<open>ScorePiece.get_duration_cache\<close> (pitch class, octave, onset, onset level,
  duration, offset, offset level, pitch type) and \<^verbatim>\<open>mc_onset\<close>, which
  \<^verbatim>\<open>eval_utils\<close> reads.
\<close>

record Note =
  n_pitch_class :: int
  n_octave :: int
  n_onset :: position
  n_onset_level :: int
  n_duration :: rat
  n_offset :: position
  n_offset_level :: int
  n_pitch_type :: PitchType
  n_mc_onset :: rat

subsection \<open>Python sequence primitives\<close>

text \<open>
  A slice bound of Python: a negative bound counts from the end, and every bound is
  clamped to the sequence.
\<close>

definition py_bound :: "nat \<Rightarrow> int \<Rightarrow> nat" where
  "py_bound n i = (if i < 0 then nat (max 0 (int n + i)) else min n (nat i))"

text \<open>\<^verbatim>\<open>xs[i:j]\<close> and \<^verbatim>\<open>xs[i:]\<close>.\<close>

definition py_slice :: "'a list \<Rightarrow> int \<Rightarrow> int \<Rightarrow> 'a list" where
  "py_slice xs i j =
     (let a = py_bound (length xs) i; b = py_bound (length xs) j
      in take (b - a) (drop a xs))"

definition py_slice_from :: "'a list \<Rightarrow> int \<Rightarrow> 'a list" where
  "py_slice_from xs i = drop (py_bound (length xs) i) xs"

text \<open>
  \<^verbatim>\<open>bisect.bisect_left(a, x, lo)\<close> of the standard library, with \<^verbatim>\<open>hi = len(a)\<close>:
  the binary search itself, so that the model says what it returns on a sequence that is
  not sorted as well.
\<close>

function bisect_loop :: "'a::linorder list \<Rightarrow> 'a \<Rightarrow> nat \<Rightarrow> nat \<Rightarrow> nat" where
  "bisect_loop a x lo hi =
     (if lo < hi
      then (let mid = (lo + hi) div 2
            in if a ! mid < x then bisect_loop a x (mid + 1) hi
               else bisect_loop a x lo mid)
      else lo)"
  by pat_completeness auto
termination
  by (relation "measure (\<lambda>(a, x, lo, hi). hi - lo)") auto

declare bisect_loop.simps [simp del]

definition bisect_left :: "'a::linorder list \<Rightarrow> 'a \<Rightarrow> nat \<Rightarrow> nat" where
  "bisect_left a x lo = bisect_loop a x lo (length a)"

subsection \<open>Chords and keys\<close>

text \<open>
  Modelled from the spec: the classes \<^verbatim>\<open>Chord\<close> and \<^verbatim>\<open>Key\<close> (\<^verbatim>\<open>data/chord.py\<close>,
  \<^verbatim>\<open>data/key.py\<close>) are not among the sources. The records hold the fields the spec's data
  model lists for them.
\<close>

record Chord =
  c_root :: int
  c_bass :: int
  c_chord_type :: ChordType
  c_inversion :: int
  c_onset :: position
  c_offset :: position
  c_duration :: rat
  c_key_tonic :: int
  c_key_mode :: KeyMode
  c_pitch_type :: PitchType
  c_suspension :: "string option"

record Key =
  k_tonic :: int
  k_mode :: KeyMode
  k_pitch_type :: PitchType
  k_relative_tonic :: int
  k_relative_mode :: KeyMode

text \<open>
  Modelled from the spec: \<^verbatim>\<open>Chord.is_repeated\<close>, called as
  \<^verbatim>\<open>next.is_repeated(prev, use_inversion=...)\<close>. The spec: two adjacent chords are
  repeated if they share root, type, inversion (configurable), and are contiguous.
\<close>

definition is_repeated :: "bool \<Rightarrow> Chord \<Rightarrow> Chord \<Rightarrow> bool" where
  "is_repeated use_inversion next_obj prev_obj =
     (c_root next_obj = c_root prev_obj \<and>
      c_chord_type next_obj = c_chord_type prev_obj \<and>
      (if use_inversion then c_inversion next_obj = c_inversion prev_obj else True) \<and>
      c_offset prev_obj = c_onset next_obj)"

text \<open>
  Modelled from the spec: \<^verbatim>\<open>Chord.merge_with\<close>. The spec: merging extends the earlier
  chord's offset and duration to subsume the later one; two rows with offsets 2 and 5
  and durations 2 and 3 merge into one chord of offset 5 and duration 5.
\<close>

definition merge_with :: "Chord \<Rightarrow> Chord \<Rightarrow> Chord" where
  "merge_with chord next_chord =
     chord\<lparr>c_offset := c_offset next_chord, c_duration := c_duration chord + c_duration next_chord\<rparr>"

section \<open>Forced labels: \<^verbatim>\<open>utils/forces.py\<close>\<close>

text \<open>
  A force is a tuple \<^verbatim>\<open>(mc, mn_onset)\<close> or \<^verbatim>\<open>(mc, mn_onset, id)\<close>; its position is
  \<^verbatim>\<open>force[:2]\<close>. The converted force is the note index, paired with the id when the
  force has one.
\<close>

datatype 'i force = Force2 int rat | Force3 int rat 'i

datatype 'i new_force = NoteIndex nat | NoteIndexId nat 'i

fun force_position :: "'i force \<Rightarrow> position" where
  "force_position (Force2 mc mn) = (mc, mn)"
| "force_position (Force3 mc mn i) = (mc, mn)"

fun with_index :: "nat \<Rightarrow> 'i force \<Rightarrow> 'i new_force" where
  "with_index k (Force2 mc mn) = NoteIndex k"
| "with_index k (Force3 mc mn i) = NoteIndexId k i"

text \<open>
  The body of the loop for one force: \<^verbatim>\<open>note_positions[index]\<close> raises
  \<^verbatim>\<open>IndexError\<close> when \<^verbatim>\<open>bisect_left\<close> returned \<^verbatim>\<open>len(note_positions)\<close>, before
  the comparison that guards the \<^verbatim>\<open>ValueError\<close>.
\<close>

definition convert_force :: "position list \<Rightarrow> 'i force \<Rightarrow> py_error + 'i new_force" where
  "convert_force note_positions force =
     (let index = bisect_left note_positions (force_position force) 0
      in if index \<ge> length note_positions then Inl IndexError
         else if note_positions ! index \<noteq> force_position force then Inl ValueError
         else Inr (with_index index force))"

fun convert_loop :: "position list \<Rightarrow> 'i force list \<Rightarrow> py_error + 'i new_force list" where
  "convert_loop note_positions [] = Inr []"
| "convert_loop note_positions (force # forces) =
     (case convert_force note_positions force of
        Inl e \<Rightarrow> Inl e
      | Inr f \<Rightarrow> (case convert_loop note_positions forces of
                   Inl e \<Rightarrow> Inl e
                 | Inr fs \<Rightarrow> Inr (f # fs)))"

text \<open>The function takes the piece and reads the onsets of \<^verbatim>\<open>piece.get_inputs()\<close>.\<close>

definition convert_score_positions_to_note_indexes ::
  "'i force list \<Rightarrow> Note list \<Rightarrow> py_error + 'i new_force list" where
  "convert_score_positions_to_note_indexes forces inputs =
     convert_loop (map n_onset inputs) forces"

section \<open>Range queries: \<^verbatim>\<open>Piece.get_chords_within_range\<close>\<close>

text \<open>
  The method reads \<^verbatim>\<open>self.get_chords()\<close> and \<^verbatim>\<open>self.get_chord_change_indices()\<close>;
  the model takes both. The \<^verbatim>\<open>assert\<close> comes first. \<^verbatim>\<open>start_index\<close> may become
  \<open>-1\<close>, which the slices then read from the end, as Python does.
\<close>

definition get_chords_within_range ::
  "'c list \<Rightarrow> int list \<Rightarrow> int \<Rightarrow> int option \<Rightarrow> py_error + 'c list" where
  "get_chords_within_range chords chord_change_indices start stop =
     (if \<not> (case stop of None \<Rightarrow> True | Some s \<Rightarrow> s \<ge> start) then Inl AssertionError
      else
        let found = bisect_left chord_change_indices start 0;
            start_index =
              (if found = length chord_change_indices \<or> chord_change_indices ! found \<noteq> start
               then int found - 1 else int found)
        in (case stop of
              None \<Rightarrow> Inr (py_slice_from chords start_index)
            | Some s \<Rightarrow>
                let end_index = bisect_left chord_change_indices s (nat (max start_index 0))
                in Inr (py_slice chords start_index (int end_index))))"

section \<open>Building a piece: \<^verbatim>\<open>data/piece.py\<close>\<close>

subsection \<open>\<^verbatim>\<open>get_reduction_mask\<close>\<close>

text \<open>
  The mask starts all \<^verbatim>\<open>True\<close>; the loop walks
  \<^verbatim>\<open>enumerate(zip(inputs[:-1], inputs[1:]))\<close> and clears
  \<^verbatim>\<open>mask[prev_index + 1]\<close> when \<^verbatim>\<open>next_obj.is_repeated(prev_obj, **kwargs)\<close>. The
  first argument is that method with its keyword arguments applied: it takes the next
  object, then the previous one.
\<close>

definition get_reduction_mask :: "('a \<Rightarrow> 'a \<Rightarrow> bool) \<Rightarrow> 'a list \<Rightarrow> bool list" where
  "get_reduction_mask repeated inputs =
     fold (\<lambda>(prev_index, (prev_obj, next_obj)) msk.
             if repeated next_obj prev_obj then msk[prev_index + 1 := False] else msk)
          (enumerate 0 (zip (butlast inputs) (tl inputs)))
          (replicate (length inputs) True)"

subsection \<open>Merging repeated chords\<close>

text \<open>
  The loop over \<^verbatim>\<open>zip(chords_list, non_repeated_mask)\<close>: a kept chord is appended, a
  dropped one is merged into \<^verbatim>\<open>chords[-1]\<close>, which raises \<^verbatim>\<open>IndexError\<close> on an empty
  list. The second argument is \<^verbatim>\<open>merge_with\<close>, the first the list built so far.
\<close>

fun merge_loop :: "('a \<Rightarrow> 'a \<Rightarrow> 'a) \<Rightarrow> 'a list \<Rightarrow> ('a \<times> bool) list \<Rightarrow> py_error + 'a list" where
  "merge_loop merge chords [] = Inr chords"
| "merge_loop merge chords ((chord, keep) # rest) =
     (if keep then merge_loop merge (chords @ [chord]) rest
      else if chords = [] then Inl IndexError
      else merge_loop merge (butlast chords @ [merge (last chords) chord]) rest)"

text \<open>Lines 639 to 647: the mask, then the loop.\<close>

definition remove_repeated ::
  "('a \<Rightarrow> 'a \<Rightarrow> bool) \<Rightarrow> ('a \<Rightarrow> 'a \<Rightarrow> 'a) \<Rightarrow> 'a list \<Rightarrow> py_error + 'a list" where
  "remove_repeated repeated merge chords_list =
     merge_loop merge [] (zip chords_list (get_reduction_mask repeated chords_list))"

text \<open>Boolean-mask indexing \<^verbatim>\<open>xs[mask]\<close> of an array by a mask of its length.\<close>

definition mask_select :: "'a list \<Rightarrow> bool list \<Rightarrow> 'a list" where
  "mask_select xs msk = map fst (filter snd (zip xs msk))"

subsection \<open>Aligning chords with notes\<close>

text \<open>
  The inner \<^verbatim>\<open>while\<close> loop: the note cursor advances while a next note exists and the
  note under the cursor starts before the chord.
\<close>

function advance_note_index :: "Note list \<Rightarrow> nat \<Rightarrow> position \<Rightarrow> nat" where
  "advance_note_index notes note_index chord_onset =
     (if note_index + 1 < length notes \<and> n_onset (notes ! note_index) < chord_onset
      then advance_note_index notes (note_index + 1) chord_onset
      else note_index)"
  by pat_completeness auto
termination
  by (relation "measure (\<lambda>(notes, note_index, chord_onset). length notes - note_index)") auto

declare advance_note_index.simps [simp del]

text \<open>The outer loop over the chords; the cursor is carried from chord to chord.\<close>

fun chord_changes_loop :: "Note list \<Rightarrow> nat \<Rightarrow> Chord list \<Rightarrow> nat list" where
  "chord_changes_loop notes note_index [] = []"
| "chord_changes_loop notes note_index (chord # chords) =
     (let note_index' = advance_note_index notes note_index (c_onset chord)
      in note_index' # chord_changes_loop notes note_index' chords)"

text \<open>\<^verbatim>\<open>get_range_start\<close>: the loop over \<^verbatim>\<open>enumerate(notes)\<close>, from \<^verbatim>\<open>note_id\<close> on.\<close>

fun range_start_from :: "position \<Rightarrow> nat \<Rightarrow> Note list \<Rightarrow> nat" where
  "range_start_from onset note_id [] = note_id"
| "range_start_from onset note_id (note # notes) =
     (if n_onset note \<ge> onset \<or> n_offset note > onset then note_id
      else range_start_from onset (note_id + 1) notes)"

definition get_range_start :: "position \<Rightarrow> Note list \<Rightarrow> nat" where
  "get_range_start onset notes = range_start_from onset 0 notes"

text \<open>
  The list comprehension over
  \<^verbatim>\<open>zip(chords, list(chord_changes[1:]) + [len(notes)])\<close>.
\<close>

definition chord_ranges_of :: "Note list \<Rightarrow> Chord list \<Rightarrow> nat list \<Rightarrow> (nat \<times> nat) list" where
  "chord_ranges_of notes chords chord_changes =
     map (\<lambda>(chord, range_end). (get_range_start (c_onset chord) notes, range_end))
         (zip chords (tl chord_changes @ [length notes]))"

subsection \<open>Key changes\<close>

text \<open>
  A cell of a data frame. \<^verbatim>\<open>fillna("-1")\<close> replaces a missing cell by the string
  \<^verbatim>\<open>"-1"\<close>.
\<close>

datatype cell = StrCell string | BoolCell bool | NaN

definition fillna :: "cell \<Rightarrow> cell" where
  "fillna c = (case c of NaN \<Rightarrow> StrCell ''-1'' | _ \<Rightarrow> c)"

text \<open>
  A row of \<^verbatim>\<open>chords_df\<close>: the five key columns, and the rest of the row, which only
  \<^verbatim>\<open>Chord.from_series\<close> and \<^verbatim>\<open>Key.from_series\<close> read.
\<close>

record 'x chord_row =
  globalkey :: cell
  globalkey_is_minor :: cell
  localkey_is_minor :: cell
  localkey :: cell
  relativeroot :: cell
  other_columns :: 'x

definition key_cols_of :: "'x chord_row \<Rightarrow> cell list" where
  "key_cols_of row =
     map fillna [globalkey row, globalkey_is_minor row, localkey_is_minor row, localkey row,
                 relativeroot row]"

text \<open>
  \<^verbatim>\<open>changes = key_cols.ne(key_cols.shift()).fillna(True)\<close> and
  \<^verbatim>\<open>np.arange(len(changes))[changes.any(axis=1)]\<close>: the first row differs from the
  missing row above it, every other row is compared with the row before.
\<close>

definition key_change_rows :: "cell list list \<Rightarrow> nat list" where
  "key_change_rows key_cols =
     filter (\<lambda>i. i = 0 \<or> key_cols ! i \<noteq> key_cols ! (i - 1)) [0..<length key_cols]"

subsection \<open>\<^verbatim>\<open>ScorePiece\<close> and \<^verbatim>\<open>get_score_piece_from_data_frames\<close>\<close>

record 'm ScorePiece =
  measures_df :: 'm
  sp_notes :: "Note list"
  sp_chords :: "Chord list"
  sp_keys :: "Key list"
  sp_chord_changes :: "nat list"
  sp_chord_ranges :: "(nat \<times> nat) list"
  sp_key_changes :: "nat list"
  sp_name :: "string option"
  sp_duration_cache :: "rat list option"

text \<open>
  The methods of \<^verbatim>\<open>Note\<close>, \<^verbatim>\<open>Chord\<close> and \<^verbatim>\<open>Key\<close> that the function calls and
  that are not among the sources: the row parsers (\<^verbatim>\<open>None\<close> for a row they
  reject; \<^verbatim>\<open>Chord.from_series\<close> takes the reduction and the two flags), the two
  \<^verbatim>\<open>is_repeated\<close> (flag, next object, previous object) and \<^verbatim>\<open>merge_with\<close>.
\<close>

record ('nr, 'x, 'red) row_methods =
  note_from_series :: "'nr \<Rightarrow> Note option"
  chord_from_series :: "'red \<Rightarrow> bool \<Rightarrow> bool \<Rightarrow> 'x chord_row \<Rightarrow> Chord option"
  key_from_series :: "'x chord_row \<Rightarrow> Key option"
  chord_is_repeated :: "bool \<Rightarrow> Chord \<Rightarrow> Chord \<Rightarrow> bool"
  chord_merge_with :: "Chord \<Rightarrow> Chord \<Rightarrow> Chord"
  key_is_repeated :: "bool \<Rightarrow> Key \<Rightarrow> Key \<Rightarrow> bool"

text \<open>
  The data frames are the lists of their rows. \<^verbatim>\<open>np.squeeze\<close> turns the column of a
  single parsed note, or of a single parsed chord, into an array without dimension, and the
  first \<^verbatim>\<open>len\<close> of it raises \<^verbatim>\<open>TypeError\<close>. Indexing \<^verbatim>\<open>key_changes\<close> by a mask of
  another length (a key row that \<^verbatim>\<open>Key.from_series\<close> rejected) raises
  \<^verbatim>\<open>IndexError\<close>.
\<close>

definition get_score_piece_from_data_frames ::
  "('nr, 'x, 'red) row_methods \<Rightarrow> 'nr list \<Rightarrow> 'x chord_row list \<Rightarrow> 'm \<Rightarrow> 'red \<Rightarrow> bool \<Rightarrow> bool \<Rightarrow>
   string option \<Rightarrow> py_error + 'm ScorePiece" where
  "get_score_piece_from_data_frames methods notes_df chords_df mdf chord_reduction
     use_inversions use_relative name =
     (let notes = List.map_filter (note_from_series methods) notes_df;
          chords_rows =
            List.map_filter
              (\<lambda>(chord_id, row).
                 map_option (\<lambda>chord. (chord, chord_id))
                   (chord_from_series methods chord_reduction use_inversions use_relative row))
              (enumerate 0 chords_df);
          chords_list = map fst chords_rows;
          chord_ilocs = map snd chords_rows
      in if length chords_list = 1 then Inl TypeError
         else
           let non_repeated_mask =
                 get_reduction_mask (chord_is_repeated methods use_inversions) chords_list
           in (case merge_loop (chord_merge_with methods) [] (zip chords_list non_repeated_mask) of
                 Inl e \<Rightarrow> Inl e
               | Inr chords \<Rightarrow>
                   if length notes = 1 then Inl TypeError
                   else
                     let chord_ilocs' = mask_select chord_ilocs non_repeated_mask;
                         chord_changes = chord_changes_loop notes 0 chords;
                         chord_ranges = chord_ranges_of notes chords chord_changes;
                         key_cols = map (\<lambda>i. key_cols_of (chords_df ! i)) chord_ilocs';
                         key_changes = key_change_rows key_cols;
                         keys_list =
                           List.map_filter
                             (\<lambda>i. key_from_series methods (chords_df ! (chord_ilocs' ! i)))
                             key_changes;
                         key_mask =
                           get_reduction_mask (key_is_repeated methods use_relative) keys_list
                     in if length key_mask \<noteq> length key_changes then Inl IndexError
                        else Inr \<lparr>measures_df = mdf, sp_notes = notes, sp_chords = chords,
                                  sp_keys = mask_select keys_list key_mask,
                                  sp_chord_changes = chord_changes,
                                  sp_chord_ranges = chord_ranges,
                                  sp_key_changes = mask_select key_changes key_mask,
                                  sp_name = name, sp_duration_cache = None\<rparr>))"

subsection \<open>\<^verbatim>\<open>ScorePiece.to_dict\<close> and \<^verbatim>\<open>get_score_piece_from_dict\<close>\<close>

text \<open>
  A sequence is a plain Python list or a \<^verbatim>\<open>numpy\<close> array. The constructor of
  \<^verbatim>\<open>ScorePiece\<close> wraps each of its arguments in \<^verbatim>\<open>np.array\<close>, so every sequence a
  piece holds is an array; the record \<open>ScorePiece\<close> holds their elements.
\<close>

datatype 'a seq = PyList "'a list" | NdArray "'a list"

fun elements :: "'a seq \<Rightarrow> 'a list" where
  "elements (PyList xs) = xs"
| "elements (NdArray xs) = xs"

text \<open>
  The values of the dictionary: sequences of the dictionaries of notes, chords and keys,
  of indices, and of index pairs.
\<close>

datatype ('nd, 'cd, 'kd) dict_value =
  NoteDicts "'nd seq" | ChordDicts "'cd seq" | KeyDicts "'kd seq"
  | Indices "nat seq" | Ranges "(nat \<times> nat) seq"

text \<open>
  The \<^verbatim>\<open>to_dict\<close> methods of \<^verbatim>\<open>Note\<close>, \<^verbatim>\<open>Chord\<close> and \<^verbatim>\<open>Key\<close> and the
  constructors that take the dictionaries back (\<^verbatim>\<open>Note(**note)\<close>) are not among the
  sources; the model takes them as parameters.
\<close>

record ('nd, 'cd, 'kd) dict_methods =
  note_to_dict :: "Note \<Rightarrow> 'nd"
  note_of_dict :: "'nd \<Rightarrow> Note"
  chord_to_dict :: "Chord \<Rightarrow> 'cd"
  chord_of_dict :: "'cd \<Rightarrow> Chord"
  key_to_dict :: "Key \<Rightarrow> 'kd"
  key_of_dict :: "'kd \<Rightarrow> Key"

text \<open>
  The dictionary, in the order of the literal. The three list comprehensions build plain
  lists; the three getters return the arrays the piece stores.
\<close>

definition to_dict ::
  "('nd, 'cd, 'kd) dict_methods \<Rightarrow> 'm ScorePiece \<Rightarrow> (string \<times> ('nd, 'cd, 'kd) dict_value) list" where
  "to_dict methods piece =
     [(''notes'', NoteDicts (PyList (map (note_to_dict methods) (sp_notes piece)))),
      (''chords'', ChordDicts (PyList (map (chord_to_dict methods) (sp_chords piece)))),
      (''keys'', KeyDicts (PyList (map (key_to_dict methods) (sp_keys piece)))),
      (''chord_changes'', Indices (NdArray (sp_chord_changes piece))),
      (''chord_ranges'', Ranges (NdArray (sp_chord_ranges piece))),
      (''key_changes'', Indices (NdArray (sp_key_changes piece)))]"

text \<open>
  \<^verbatim>\<open>piece_dict[key]\<close> raises \<^verbatim>\<open>KeyError\<close> for a missing key. In the typed model a
  value of another kind than the one the function reads raises \<^verbatim>\<open>TypeError\<close>.
\<close>

fun note_dicts_at :: "('nd, 'cd, 'kd) dict_value option \<Rightarrow> py_error + 'nd seq" where
  "note_dicts_at None = Inl KeyError"
| "note_dicts_at (Some (NoteDicts s)) = Inr s"
| "note_dicts_at (Some v) = Inl TypeError"

fun chord_dicts_at :: "('nd, 'cd, 'kd) dict_value option \<Rightarrow> py_error + 'cd seq" where
  "chord_dicts_at None = Inl KeyError"
| "chord_dicts_at (Some (ChordDicts s)) = Inr s"
| "chord_dicts_at (Some v) = Inl TypeError"

fun key_dicts_at :: "('nd, 'cd, 'kd) dict_value option \<Rightarrow> py_error + 'kd seq" where
  "key_dicts_at None = Inl KeyError"
| "key_dicts_at (Some (KeyDicts s)) = Inr s"
| "key_dicts_at (Some v) = Inl TypeError"

fun indices_at :: "('nd, 'cd, 'kd) dict_value option \<Rightarrow> py_error + nat seq" where
  "indices_at None = Inl KeyError"
| "indices_at (Some (Indices s)) = Inr s"
| "indices_at (Some v) = Inl TypeError"

fun ranges_at :: "('nd, 'cd, 'kd) dict_value option \<Rightarrow> py_error + (nat \<times> nat) seq" where
  "ranges_at None = Inl KeyError"
| "ranges_at (Some (Ranges s)) = Inr s"
| "ranges_at (Some v) = Inl TypeError"

text \<open>
  The arguments of the constructor are evaluated in order, so the first failing lookup
  raises. A new piece has no name unless one is given and no duration cache.
\<close>

definition get_score_piece_from_dict ::
  "('nd, 'cd, 'kd) dict_methods \<Rightarrow> 'm \<Rightarrow> (string \<times> ('nd, 'cd, 'kd) dict_value) list \<Rightarrow>
   string option \<Rightarrow> py_error + 'm ScorePiece" where
  "get_score_piece_from_dict methods mdf piece_dict name =
     (case note_dicts_at (map_of piece_dict ''notes'') of Inl e \<Rightarrow> Inl e | Inr note_dicts \<Rightarrow>
      case chord_dicts_at (map_of piece_dict ''chords'') of Inl e \<Rightarrow> Inl e | Inr chord_dicts \<Rightarrow>
      case key_dicts_at (map_of piece_dict ''keys'') of Inl e \<Rightarrow> Inl e | Inr key_dicts \<Rightarrow>
      case indices_at (map_of piece_dict ''chord_changes'') of Inl e \<Rightarrow> Inl e | Inr chord_changes \<Rightarrow>
      case ranges_at (map_of piece_dict ''chord_ranges'') of Inl e \<Rightarrow> Inl e | Inr chord_ranges \<Rightarrow>
      case indices_at (map_of piece_dict ''key_changes'') of Inl e \<Rightarrow> Inl e | Inr key_changes \<Rightarrow>
        Inr \<lparr>measures_df = mdf,
             sp_notes = map (note_of_dict methods) (elements note_dicts),
             sp_chords = map (chord_of_dict methods) (elements chord_dicts),
             sp_keys = map (key_of_dict methods) (elements key_dicts),
             sp_chord_changes = elements chord_changes,
             sp_chord_ranges = elements chord_ranges,
             sp_key_changes = elements key_changes,
             sp_name = name, sp_duration_cache = None\<rparr>)"

section \<open>Descriptions of the results\<close>

text \<open>
  The functions of this section are not translations of code: they say, in closed form,
  what the loops above compute, and the theorems compare the two.
\<close>

text \<open>The mask after a first element \<open>l\<close>: each element is kept unless it repeats the one before.\<close>

fun mask_after :: "('a \<Rightarrow> 'a \<Rightarrow> bool) \<Rightarrow> 'a \<Rightarrow> 'a list \<Rightarrow> bool list" where
  "mask_after repeated l [] = []"
| "mask_after repeated l (y # ys) = (\<not> repeated y l) # mask_after repeated y ys"

text \<open>
  The merged sequence: \<open>cur\<close> is the chord that survives the current run, \<open>l\<close> the last
  chord of the input read so far, with which the next one is compared.
\<close>

fun merged_runs :: "('a \<Rightarrow> 'a \<Rightarrow> bool) \<Rightarrow> ('a \<Rightarrow> 'a \<Rightarrow> 'a) \<Rightarrow> 'a \<Rightarrow> 'a \<Rightarrow> 'a list \<Rightarrow> 'a list" where
  "merged_runs repeated merge l cur [] = [cur]"
| "merged_runs repeated merge l cur (y # ys) =
     (if repeated y l then merged_runs repeated merge y (merge cur y) ys
      else cur # merged_runs repeated merge y y ys)"

text \<open>No element of the sequence repeats the element before it.\<close>

fun no_adjacent_repeat :: "('a \<Rightarrow> 'a \<Rightarrow> bool) \<Rightarrow> 'a list \<Rightarrow> bool" where
  "no_adjacent_repeat repeated [] = True"
| "no_adjacent_repeat repeated [a] = True"
| "no_adjacent_repeat repeated (a # b # zs) =
     (\<not> repeated b a \<and> no_adjacent_repeat repeated (b # zs))"

text \<open>The index of the first element that satisfies \<open>P\<close>, if there is one.\<close>

fun first_index :: "('a \<Rightarrow> bool) \<Rightarrow> 'a list \<Rightarrow> nat option" where
  "first_index P [] = None"
| "first_index P (x # xs) = (if P x then Some 0 else map_option Suc (first_index P xs))"

text \<open>A note whose onset is not earlier than the given onset.\<close>

definition starts_at_or_after :: "position \<Rightarrow> Note \<Rightarrow> bool" where
  "starts_at_or_after onset note = (\<not> n_onset note < onset)"

text \<open>A note that starts at or after the given onset, or still sounds after it.\<close>

definition sounds_at_or_after :: "position \<Rightarrow> Note \<Rightarrow> bool" where
  "sounds_at_or_after onset note = (n_onset note \<ge> onset \<or> n_offset note > onset)"

text \<open>A value of the dictionary that is a plain list.\<close>

fun plain_list :: "('nd, 'cd, 'kd) dict_value \<Rightarrow> bool" where
  "plain_list (NoteDicts (PyList xs)) = True"
| "plain_list (ChordDicts (PyList xs)) = True"
| "plain_list (KeyDicts (PyList xs)) = True"
| "plain_list (Indices (PyList xs)) = True"
| "plain_list (Ranges (PyList xs)) = True"
| "plain_list v = False"

section \<open>Windowed note input: \<^verbatim>\<open>get_chord_note_input\<close>\<close>

text \<open>
  The keyword arguments of \<^verbatim>\<open>Note.to_vec\<close>. The method itself and
  \<^verbatim>\<open>Note.get_midi_note_number\<close> are not among the sources: the model takes both as
  parameters. A pitch is the pair \<^verbatim>\<open>(octave, midi note number)\<close>; a note vector is a
  row of numbers.
\<close>

record 'm to_vec_kwargs =
  kw_chord_onset :: position
  kw_chord_offset :: position
  kw_chord_duration :: rat
  kw_measures_df :: 'm
  kw_min_pitch :: "int \<times> int"
  kw_max_pitch :: "int \<times> int"
  kw_note_onset :: "rat option"
  kw_dur_from_prev :: "rat option"
  kw_dur_to_next :: "rat option"

text \<open>\<^verbatim>\<open>min\<close> and \<^verbatim>\<open>max\<close> of a list raise \<^verbatim>\<open>ValueError\<close> on an empty one.\<close>

fun py_min :: "'a::linorder list \<Rightarrow> py_error + 'a" where
  "py_min [] = Inl ValueError"
| "py_min (x # xs) = Inr (fold min xs x)"

fun py_max :: "'a::linorder list \<Rightarrow> py_error + 'a" where
  "py_max [] = Inl ValueError"
| "py_max (x # xs) = Inr (fold max xs x)"

text \<open>
  \<^verbatim>\<open>np.vstack\<close> raises \<^verbatim>\<open>ValueError\<close> on an empty list and on rows of different
  lengths.
\<close>

definition np_vstack :: "real list list \<Rightarrow> py_error + real list list" where
  "np_vstack vs =
     (if vs = [] then Inl ValueError
      else if \<exists>v \<in> set vs. length v \<noteq> length (hd vs) then Inl ValueError
      else Inr vs)"

text \<open>
  \<^verbatim>\<open>arr[start:end] = rows\<close> on a two-dimensional array: the rows replace the slice
  when there are as many rows as the slice has, a single row is broadcast over the slice,
  and every other shape raises \<^verbatim>\<open>ValueError\<close>.
\<close>

definition assign_rows ::
  "'a list \<Rightarrow> int \<Rightarrow> int \<Rightarrow> 'a list \<Rightarrow> py_error + 'a list" where
  "assign_rows arr start stop rows =
     (let a = py_bound (length arr) start;
          b = py_bound (length arr) stop;
          k = b - a
      in if length rows = k then Inr (take a arr @ rows @ drop (a + k) arr)
         else if length rows = 1 then Inr (take a arr @ replicate k (hd rows) @ drop (a + k) arr)
         else Inl ValueError)"

text \<open>
  The onset of a note relative to the chord, from the duration cache: the branches of the
  loop over \<^verbatim>\<open>range(first_note_index, last_note_index)\<close>.
\<close>

definition note_onset_of :: "rat list \<Rightarrow> int \<Rightarrow> int \<Rightarrow> rat" where
  "note_onset_of duration_cache change_index note_index =
     (if note_index < change_index
      then - sum_list (py_slice duration_cache note_index change_index)
      else if note_index > change_index
      then sum_list (py_slice duration_cache change_index note_index)
      else 0)"

text \<open>
  The list comprehension under \<^verbatim>\<open>np.vstack\<close>: \<^verbatim>\<open>zip\<close> stops at the shortest of
  its four lists.
\<close>

definition window_vectors ::
  "(Note \<Rightarrow> 'm to_vec_kwargs \<Rightarrow> real list) \<Rightarrow> 'm \<Rightarrow> position \<Rightarrow> position \<Rightarrow> rat \<Rightarrow>
   int \<times> int \<Rightarrow> int \<times> int \<Rightarrow> Note list \<Rightarrow> rat option list \<Rightarrow> rat option list \<Rightarrow>
   rat option list \<Rightarrow> real list list" where
  "window_vectors to_vec mdf onset offset chord_duration min_pitch max_pitch chord_notes
     note_onsets from_prevs to_nexts =
     map (\<lambda>(note, note_onset, from_prev, to_next).
            to_vec note
              \<lparr>kw_chord_onset = onset, kw_chord_offset = offset,
               kw_chord_duration = chord_duration, kw_measures_df = mdf,
               kw_min_pitch = min_pitch, kw_max_pitch = max_pitch,
               kw_note_onset = note_onset, kw_dur_from_prev = from_prev,
               kw_dur_to_next = to_next\<rparr>)
         (zip chord_notes (zip note_onsets (zip from_prevs to_nexts)))"

text \<open>
  The function. \<^verbatim>\<open>list(duration_cache)\<close> raises \<^verbatim>\<open>TypeError\<close> when the cache is
  \<^verbatim>\<open>None\<close>, and \<^verbatim>\<open>np.zeros\<close> raises \<^verbatim>\<open>ValueError\<close> on a negative number of
  rows.
\<close>

definition get_chord_note_input ::
  "(Note \<Rightarrow> 'm to_vec_kwargs \<Rightarrow> real list) \<Rightarrow> (Note \<Rightarrow> int) \<Rightarrow> Note list \<Rightarrow> 'm \<Rightarrow>
   position \<Rightarrow> position \<Rightarrow> rat \<Rightarrow> int \<Rightarrow> int \<Rightarrow> int \<Rightarrow> int \<Rightarrow> rat list option \<Rightarrow>
   Chord option \<Rightarrow> py_error + real list list" where
  "get_chord_note_input to_vec get_midi_note_number notes mdf chord_onset chord_offset
     chord_duration change_index onset_index offset_index window cache chord =
     (let chord_onset_aligns = (case chord of None \<Rightarrow> True | Some c \<Rightarrow> c_onset c = chord_onset);
          chord_offset_aligns = (case chord of None \<Rightarrow> True | Some c \<Rightarrow> c_offset c = chord_offset);
          window_onset_index = onset_index - window;
          window_offset_index = offset_index + window
      in (case cache of
            None \<Rightarrow> Inl TypeError
          | Some dc \<Rightarrow>
              let dur_from_prevs = None # map Some dc;
                  dur_to_nexts = map Some dc;
                  first_note_index = max window_onset_index 0;
                  last_note_index = min window_offset_index (int (length notes));
                  chord_notes = py_slice notes first_note_index last_note_index;
                  pitch_list =
                    map (\<lambda>note. (n_octave note, get_midi_note_number note)) chord_notes
              in (case py_min pitch_list of
                    Inl e \<Rightarrow> Inl e
                  | Inr min_pitch \<Rightarrow>
                  (case py_max pitch_list of
                    Inl e \<Rightarrow> Inl e
                  | Inr max_pitch \<Rightarrow>
                      let note_onsets =
                            (if \<not> chord_onset_aligns
                             then replicate (length chord_notes) None
                             else map (\<lambda>note_index. Some (note_onset_of dc change_index note_index))
                                    [first_note_index..last_note_index - 1]);
                          vectors =
                            window_vectors to_vec mdf
                              (case chord of
                                 None \<Rightarrow> chord_onset
                               | Some c \<Rightarrow> if chord_onset_aligns then chord_onset else c_onset c)
                              (case chord of
                                 None \<Rightarrow> chord_offset
                               | Some c \<Rightarrow> if chord_offset_aligns then chord_offset else c_offset c)
                              chord_duration min_pitch max_pitch chord_notes note_onsets
                              (py_slice dur_from_prevs first_note_index last_note_index)
                              (py_slice dur_to_nexts first_note_index last_note_index)
                      in (case np_vstack vectors of
                            Inl e \<Rightarrow> Inl e
                          | Inr note_vectors \<Rightarrow>
                              if window_offset_index - window_onset_index < 0 then Inl ValueError
                              else
                                let chord_input =
                                      replicate (nat (window_offset_index - window_onset_index))
                                        (replicate (length (hd note_vectors)) 0);
                                    start = 0 + (first_note_index - window_onset_index);
                                    stop = int (length chord_input)
                                             - (window_offset_index - last_note_index)
                                in assign_rows chord_input start stop note_vectors)))))"

section \<open>Evaluation: \<^verbatim>\<open>utils/eval_utils.py\<close>\<close>

subsection \<open>Rows of a results frame\<close>

text \<open>
  A value of a column of object type. The arrays behind the columns start as
  \<^verbatim>\<open>np.zeros\<close>, so a cell that no segment covers holds the integer 0 (\<^verbatim>\<open>False\<close> in
  a column of booleans).
\<close>

datatype pyval = IntV int | StrV string | BoolV bool | TypeV ChordType | ModeV KeyMode

text \<open>
  Python's \<^verbatim>\<open>==\<close> on these values: a boolean equals the integer 0 or 1 it stands for,
  and values of different kinds are otherwise unequal.
\<close>

fun py_eq :: "pyval \<Rightarrow> pyval \<Rightarrow> bool" where
  "py_eq (BoolV b) (IntV i) = (i = (if b then 1 else 0))"
| "py_eq (IntV i) (BoolV b) = (i = (if b then 1 else 0))"
| "py_eq x y = (x = y)"

text \<open>
  The features \<^verbatim>\<open>evaluate_features\<close> documents as legal; feature \<open>f\<close> names the
  columns \<^verbatim>\<open>gt_f\<close> and \<^verbatim>\<open>est_f\<close>. A row holds both columns of every feature and
  the \<^verbatim>\<open>duration\<close> column, an exact fraction.
\<close>

datatype feature =
  F_key | F_tonic | F_mode | F_chord | F_root | F_chord_type | F_triad | F_inversion
  | F_pitches | F_is_default

record result_row =
  gt :: "feature \<Rightarrow> pyval"
  est :: "feature \<Rightarrow> pyval"
  duration :: rat

subsection \<open>\<^verbatim>\<open>evaluate_features\<close>\<close>

text \<open>
  \<^verbatim>\<open>np.average(a, weights=w)\<close> raises \<^verbatim>\<open>ZeroDivisionError\<close> when the weights sum to
  zero; a boolean counts as 0 or 1.
\<close>

definition np_average :: "bool list \<Rightarrow> rat list \<Rightarrow> py_error + rat" where
  "np_average a weights =
     (if sum_list weights = 0 then Inl ZeroDivisionError
      else Inr (sum_list (map (\<lambda>(c, w). (if c then 1 else 0) * w) (zip a weights))
                / sum_list weights))"

text \<open>
  \<^verbatim>\<open>results_df.loc[filter]\<close> with a boolean mask raises \<^verbatim>\<open>IndexError\<close> when the
  mask has another length than the frame. The loop over the features narrows the mask of
  correct rows, and an empty frame returns 0 before any division.
\<close>

definition evaluate_features ::
  "result_row list \<Rightarrow> feature list \<Rightarrow> bool list option \<Rightarrow> py_error + rat" where
  "evaluate_features results_df features flt =
     (case (case flt of
              None \<Rightarrow> Inr results_df
            | Some m \<Rightarrow> if length m \<noteq> length results_df then Inl IndexError
                        else Inr (mask_select results_df m)) of
        Inl e \<Rightarrow> Inl e
      | Inr df \<Rightarrow>
          if length df = 0 then Inr 0
          else
            let correct_mask =
                  fold (\<lambda>f correct. map (\<lambda>(c, row). c \<and> py_eq (gt row f) (est row f))
                                       (zip correct df))
                       features (replicate (length df) True)
            in np_average correct_mask (map duration df))"

subsection \<open>The estimated state and the duration cache\<close>

text \<open>
  Modelled from the spec: the class \<^verbatim>\<open>State\<close> (\<^verbatim>\<open>models/joint_model.py\<close>) is not
  among the sources. The spec's estimated-state interface: \<^verbatim>\<open>get_chords()\<close> returns the
  chord labels, their boundary indices and their pitch sets, \<^verbatim>\<open>get_keys()\<close> the key
  labels and their boundary indices; segment \<open>i\<close> spans
  \<^verbatim>\<open>[boundary[i], boundary[i + 1])\<close>. The record holds what the two methods return.
\<close>

record 'p State =
  st_chords :: "int list"
  st_chord_changes :: "nat list"
  st_chord_pitches :: "'p list"
  st_keys :: "int list"
  st_key_changes :: "nat list"

text \<open>
  \<^verbatim>\<open>ScorePiece.get_duration_cache\<close>: the stored cache, or the distance from each note's
  onset to the next note's, the last one to the offset of the last chord
  (\<^verbatim>\<open>self.chords[-1]\<close> raises \<^verbatim>\<open>IndexError\<close> without a chord).
  \<^verbatim>\<open>ru.get_range_length\<close> is not among the sources and is a parameter. The method also
  stores the cache in the piece; the model returns the value only.
\<close>

definition get_duration_cache ::
  "(position \<Rightarrow> position \<Rightarrow> 'm \<Rightarrow> rat) \<Rightarrow> 'm ScorePiece \<Rightarrow> py_error + rat list" where
  "get_duration_cache get_range_length piece =
     (case sp_duration_cache piece of
        Some cache \<Rightarrow> Inr cache
      | None \<Rightarrow>
          if sp_chords piece = [] then Inl IndexError
          else Inr (map (\<lambda>(prev_note, next_onset).
                           get_range_length (n_onset prev_note) next_onset (measures_df piece))
                        (zip (sp_notes piece)
                             (map n_onset (tl (sp_notes piece))
                              @ [c_offset (last (sp_chords piece))]))))"

text \<open>
  \<^verbatim>\<open>Piece.get_key_change_input_indices\<close>: \<^verbatim>\<open>chord_changes[i]\<close> for each key change
  \<open>i\<close>, which raises \<^verbatim>\<open>IndexError\<close> out of range.
\<close>

fun get_key_change_input_indices_from :: "nat list \<Rightarrow> nat list \<Rightarrow> py_error + nat list" where
  "get_key_change_input_indices_from chord_changes [] = Inr []"
| "get_key_change_input_indices_from chord_changes (i # key_changes) =
     (if i \<ge> length chord_changes then Inl IndexError
      else (case get_key_change_input_indices_from chord_changes key_changes of
              Inl e \<Rightarrow> Inl e
            | Inr rest \<Rightarrow> Inr (chord_changes ! i # rest)))"

definition get_key_change_input_indices :: "'m ScorePiece \<Rightarrow> py_error + nat list" where
  "get_key_change_input_indices piece =
     get_key_change_input_indices_from (sp_chord_changes piece) (sp_key_changes piece)"

subsection \<open>Broadcasting labels over notes\<close>

text \<open>\<^verbatim>\<open>arr[start:stop] = v\<close> and \<^verbatim>\<open>arr[start:] = v\<close> for a single value \<open>v\<close>.\<close>

definition set_slice :: "'a list \<Rightarrow> nat \<Rightarrow> nat \<Rightarrow> 'a \<Rightarrow> 'a list" where
  "set_slice arr start stop v =
     map (\<lambda>(i, x). if start \<le> i \<and> i < stop then v else x) (enumerate 0 arr)"

definition set_from :: "'a list \<Rightarrow> nat \<Rightarrow> 'a \<Rightarrow> 'a list" where
  "set_from arr start v = map (\<lambda>(i, x). if start \<le> i then v else x) (enumerate 0 arr)"

text \<open>
  The loop \<^verbatim>\<open>for v, start, end in zip(values, changes, changes[1:])\<close>, which the
  estimates run as \<^verbatim>\<open>zip(values, changes[:-1], changes[1:])\<close>.
\<close>

definition broadcast_segments :: "'a list \<Rightarrow> 'a list \<Rightarrow> nat list \<Rightarrow> 'a list" where
  "broadcast_segments arr values changes =
     fold (\<lambda>(v, start, stop) a. set_slice a start stop v)
          (zip values (zip changes (tl changes))) arr"

text \<open>
  The ground truth: the loop, then the last value from the last change to the end.
  \<^verbatim>\<open>gt_chords[-1]\<close> and \<^verbatim>\<open>gt_changes[-1]\<close> raise \<^verbatim>\<open>IndexError\<close> on an empty
  sequence.
\<close>

definition broadcast_gt :: "'a list \<Rightarrow> 'a list \<Rightarrow> nat list \<Rightarrow> py_error + 'a list" where
  "broadcast_gt arr values changes =
     (let looped = broadcast_segments arr values changes
      in if values = [] then Inl IndexError
         else if changes = [] then Inl IndexError
         else Inr (set_from looped (last changes) (last values)))"

subsection \<open>\<^verbatim>\<open>get_results_df\<close>\<close>

text \<open>
  The function fills seven arrays per chord and three per key, always with the same
  slices; the model keeps one array of records for each group. The arrays start as
  \<^verbatim>\<open>np.zeros\<close>.
\<close>

record chord_entry =
  ce_label :: int
  ce_root :: int
  ce_chord_type :: pyval
  ce_triad :: pyval
  ce_inversion :: int
  ce_pitches :: pyval
  ce_is_default :: bool

record key_entry =
  ke_label :: int
  ke_tonic :: int
  ke_mode :: pyval

definition zero_chord_entry :: chord_entry where
  "zero_chord_entry =
     \<lparr>ce_label = 0, ce_root = 0, ce_chord_type = IntV 0, ce_triad = IntV 0, ce_inversion = 0,
      ce_pitches = IntV 0, ce_is_default = False\<rparr>"

definition zero_key_entry :: key_entry where
  "zero_key_entry = \<lparr>ke_label = 0, ke_tonic = 0, ke_mode = IntV 0\<rparr>"

text \<open>
  What the function computes for one segment with the methods of \<^verbatim>\<open>Chord\<close> and
  \<^verbatim>\<open>Key\<close> and the functions of \<^verbatim>\<open>harmonic_utils\<close>, none of them among the sources:
  the entry of a ground-truth chord in the pitch type of the chord roots, the entry of an
  estimated chord label with its pitches (output root type, then chord root type), the
  same for keys, and the two lists of label strings.
\<close>

record 'p label_methods =
  gt_chord_entry :: "PitchType \<Rightarrow> Chord \<Rightarrow> chord_entry"
  est_chord_entry :: "PitchType \<Rightarrow> PitchType \<Rightarrow> int \<Rightarrow> 'p \<Rightarrow> chord_entry"
  gt_key_entry :: "PitchType \<Rightarrow> Key \<Rightarrow> key_entry"
  est_key_entry :: "PitchType \<Rightarrow> PitchType \<Rightarrow> int \<Rightarrow> key_entry"
  chord_label_list :: "PitchType \<Rightarrow> string list"
  key_label_list :: "PitchType \<Rightarrow> string list"

text \<open>\<^verbatim>\<open>xs[i]\<close> for an integer \<open>i\<close>: a negative index counts from the end.\<close>

definition py_index :: "'a list \<Rightarrow> int \<Rightarrow> py_error + 'a" where
  "py_index xs i =
     (let n = int (length xs); j = (if i < 0 then n + i else i)
      in if 0 \<le> j \<and> j < n then Inr (xs ! nat j) else Inl IndexError)"

text \<open>The dictionary of one note: the four label lookups, in the order of the literal.\<close>

definition results_row ::
  "string list \<Rightarrow> string list \<Rightarrow> rat \<times> chord_entry \<times> chord_entry \<times> key_entry \<times> key_entry \<Rightarrow>
   py_error + result_row" where
  "results_row chord_labels key_labels t =
     (case t of (d, est_c, gt_c, est_k, gt_k) \<Rightarrow>
      case py_index key_labels (ke_label gt_k) of Inl e \<Rightarrow> Inl e | Inr gt_key_string \<Rightarrow>
      case py_index chord_labels (ce_label gt_c) of Inl e \<Rightarrow> Inl e | Inr gt_chord_string \<Rightarrow>
      case py_index key_labels (ke_label est_k) of Inl e \<Rightarrow> Inl e | Inr est_key_string \<Rightarrow>
      case py_index chord_labels (ce_label est_c) of Inl e \<Rightarrow> Inl e | Inr est_chord_string \<Rightarrow>
        Inr \<lparr>gt = (\<lambda>f. case f of
                       F_key \<Rightarrow> StrV gt_key_string | F_tonic \<Rightarrow> IntV (ke_tonic gt_k)
                     | F_mode \<Rightarrow> ke_mode gt_k | F_chord \<Rightarrow> StrV gt_chord_string
                     | F_root \<Rightarrow> IntV (ce_root gt_c) | F_chord_type \<Rightarrow> ce_chord_type gt_c
                     | F_triad \<Rightarrow> ce_triad gt_c | F_inversion \<Rightarrow> IntV (ce_inversion gt_c)
                     | F_pitches \<Rightarrow> ce_pitches gt_c | F_is_default \<Rightarrow> BoolV (ce_is_default gt_c)),
             est = (\<lambda>f. case f of
                       F_key \<Rightarrow> StrV est_key_string | F_tonic \<Rightarrow> IntV (ke_tonic est_k)
                     | F_mode \<Rightarrow> ke_mode est_k | F_chord \<Rightarrow> StrV est_chord_string
                     | F_root \<Rightarrow> IntV (ce_root est_c) | F_chord_type \<Rightarrow> ce_chord_type est_c
                     | F_triad \<Rightarrow> ce_triad est_c | F_inversion \<Rightarrow> IntV (ce_inversion est_c)
                     | F_pitches \<Rightarrow> ce_pitches est_c | F_is_default \<Rightarrow> BoolV (ce_is_default est_c)),
             duration = d\<rparr>)"

text \<open>The final loop: a note of duration zero is skipped.\<close>

fun results_loop ::
  "string list \<Rightarrow> string list \<Rightarrow>
   (rat \<times> chord_entry \<times> chord_entry \<times> key_entry \<times> key_entry) list \<Rightarrow>
   py_error + result_row list" where
  "results_loop chord_labels key_labels [] = Inr []"
| "results_loop chord_labels key_labels (t # ts) =
     (if fst t = 0 then results_loop chord_labels key_labels ts
      else (case results_row chord_labels key_labels t of
              Inl e \<Rightarrow> Inl e
            | Inr row \<Rightarrow> (case results_loop chord_labels key_labels ts of
                           Inl e \<Rightarrow> Inl e
                         | Inr rows \<Rightarrow> Inr (row # rows))))"

text \<open>The four arrays, in the order the function fills them.\<close>

definition gt_chord_array ::
  "'p label_methods \<Rightarrow> 'm ScorePiece \<Rightarrow> PitchType \<Rightarrow> py_error + chord_entry list" where
  "gt_chord_array methods piece chord_root_type =
     broadcast_gt (replicate (length (sp_notes piece)) zero_chord_entry)
       (map (gt_chord_entry methods chord_root_type) (sp_chords piece))
       (sp_chord_changes piece)"

definition est_chord_array ::
  "'p label_methods \<Rightarrow> 'm ScorePiece \<Rightarrow> 'p State \<Rightarrow> PitchType \<Rightarrow> PitchType \<Rightarrow> chord_entry list" where
  "est_chord_array methods piece state output_root_type chord_root_type =
     broadcast_segments (replicate (length (sp_notes piece)) zero_chord_entry)
       (map (\<lambda>(chord, pitches).
               est_chord_entry methods output_root_type chord_root_type chord pitches)
            (zip (st_chords state) (st_chord_pitches state)))
       (st_chord_changes state)"

definition gt_key_array ::
  "'p label_methods \<Rightarrow> 'm ScorePiece \<Rightarrow> PitchType \<Rightarrow> py_error + key_entry list" where
  "gt_key_array methods piece key_tonic_type =
     (case get_key_change_input_indices piece of
        Inl e \<Rightarrow> Inl e
      | Inr gt_changes \<Rightarrow>
          broadcast_gt (replicate (length (sp_notes piece)) zero_key_entry)
            (map (gt_key_entry methods key_tonic_type) (sp_keys piece)) gt_changes)"

definition est_key_array ::
  "'p label_methods \<Rightarrow> 'm ScorePiece \<Rightarrow> 'p State \<Rightarrow> PitchType \<Rightarrow> PitchType \<Rightarrow> key_entry list" where
  "est_key_array methods piece state output_tonic_type key_tonic_type =
     broadcast_segments (replicate (length (sp_notes piece)) zero_key_entry)
       (map (est_key_entry methods output_tonic_type key_tonic_type) (st_keys state))
       (st_key_changes state)"

definition get_results_df ::
  "'p label_methods \<Rightarrow> (position \<Rightarrow> position \<Rightarrow> 'm \<Rightarrow> rat) \<Rightarrow> 'm ScorePiece \<Rightarrow> 'p State \<Rightarrow>
   PitchType \<Rightarrow> PitchType \<Rightarrow> PitchType \<Rightarrow> PitchType \<Rightarrow> py_error + result_row list" where
  "get_results_df methods get_range_length piece state output_root_type output_tonic_type
     chord_root_type key_tonic_type =
     (case gt_chord_array methods piece chord_root_type of
        Inl e \<Rightarrow> Inl e
      | Inr gt_chords \<Rightarrow>
     (let est_chords = est_chord_array methods piece state output_root_type chord_root_type
      in case gt_key_array methods piece key_tonic_type of
        Inl e \<Rightarrow> Inl e
      | Inr gt_keys \<Rightarrow>
     (let est_keys = est_key_array methods piece state output_tonic_type key_tonic_type
      in case get_duration_cache get_range_length piece of
        Inl e \<Rightarrow> Inl e
      | Inr cache \<Rightarrow>
          results_loop (chord_label_list methods chord_root_type)
            (key_label_list methods key_tonic_type)
            (zip cache (zip est_chords (zip gt_chords (zip est_keys gt_keys)))))))"

subsection \<open>\<^verbatim>\<open>get_results_annotation_df\<close>\<close>

text \<open>
  What the function takes from \<^verbatim>\<open>Chord\<close>, \<^verbatim>\<open>Key\<close>, \<^verbatim>\<open>harmonic_utils\<close> and
  \<^verbatim>\<open>harmonic_constants\<close>, none of them among the sources: the one-hot index and the
  pitches of a ground-truth chord in the given root type, the one-hot index of a
  ground-truth key, the list of chord label strings, the list of (root, chord type,
  inversion) triples, the list of key label strings, the list of (tonic, mode) pairs, and
  the table \<^verbatim>\<open>TRIAD_REDUCTION\<close>.
\<close>

record ('p, 'red) annotation_methods =
  chord_one_hot_index :: "PitchType \<Rightarrow> bool \<Rightarrow> 'red \<Rightarrow> Chord \<Rightarrow> int"
  chord_pitches_of :: "PitchType \<Rightarrow> Chord \<Rightarrow> 'p"
  key_one_hot_index :: "PitchType \<Rightarrow> Key \<Rightarrow> int"
  get_chord_label_list :: "PitchType \<Rightarrow> bool \<Rightarrow> 'red \<Rightarrow> string list"
  get_chord_from_one_hot_index :: "PitchType \<Rightarrow> bool \<Rightarrow> 'red \<Rightarrow> (int \<times> ChordType \<times> int) list"
  get_key_label_list :: "PitchType \<Rightarrow> string list"
  get_key_from_one_hot_index :: "PitchType \<Rightarrow> (int \<times> KeyMode) list"
  TRIAD_REDUCTION :: "ChordType \<Rightarrow> ChordType"

text \<open>
  One dictionary of \<^verbatim>\<open>labels_list\<close>, with the keys \<^verbatim>\<open>label\<close>, \<^verbatim>\<open>mc\<close>,
  \<^verbatim>\<open>mc_onset\<close>, \<^verbatim>\<open>mn_onset\<close> and \<^verbatim>\<open>color_name\<close>.
\<close>

record annot_row =
  a_label :: string
  a_mc :: int
  a_mc_onset :: rat
  a_mn_onset :: rat
  a_color_name :: string

text \<open>The six \<^verbatim>\<open>prev_...\<close> variables of the loop, all \<^verbatim>\<open>None\<close> at the start.\<close>

record 'p prev_labels =
  prev_gt_chord_string :: "string option"
  prev_gt_key_string :: "string option"
  prev_gt_chord_pitches :: "'p option"
  prev_est_key_string :: "string option"
  prev_est_chord_string :: "string option"
  prev_est_chord_pitches :: "'p option"

definition no_prev_labels :: "'p prev_labels" where
  "no_prev_labels =
     \<lparr>prev_gt_chord_string = None, prev_gt_key_string = None, prev_gt_chord_pitches = None,
      prev_est_key_string = None, prev_est_chord_string = None,
      prev_est_chord_pitches = None\<rparr>"

text \<open>
  \<^verbatim>\<open>a, b = s\<close> for a string \<open>s\<close>: the two characters of a string of length two, and
  \<^verbatim>\<open>ValueError\<close> for any other length.
\<close>

definition unpack2 :: "string \<Rightarrow> py_error + string \<times> string" where
  "unpack2 s = (case s of [a, b] \<Rightarrow> Inr ([a], [b]) | _ \<Rightarrow> Inl ValueError)"

text \<open>
  The colour of a key label. The ground-truth tonic and mode are the two values unpacked
  from \<^verbatim>\<open>key_label_list[gt_key_label]\<close>, which are strings; the estimated ones come
  from \<^verbatim>\<open>key_list[est_key_label]\<close>. The comparisons are Python's \<^verbatim>\<open>==\<close>.
\<close>

definition key_color :: "string \<Rightarrow> string \<Rightarrow> int \<Rightarrow> KeyMode \<Rightarrow> string" where
  "key_color gt_tonic gt_mode est_tonic est_mode =
     (if py_eq (StrV gt_tonic) (IntV est_tonic) \<and> py_eq (StrV gt_mode) (ModeV est_mode)
      then ''green''
      else if py_eq (StrV gt_tonic) (IntV est_tonic) then ''orange''
      else ''red'')"

text \<open>The colour of a chord label, from the two triples of \<^verbatim>\<open>chord_list\<close>.\<close>

definition chord_color ::
  "(ChordType \<Rightarrow> ChordType) \<Rightarrow> int \<times> ChordType \<times> int \<Rightarrow> int \<times> ChordType \<times> int \<Rightarrow> string" where
  "chord_color triad gt_chord est_chord =
     (case gt_chord of (gt_root, gt_chord_type, gt_inversion) \<Rightarrow>
      case est_chord of (est_root, est_chord_type, est_inversion) \<Rightarrow>
        if gt_root = est_root \<and> gt_chord_type = est_chord_type \<and> gt_inversion = est_inversion
        then ''green''
        else if gt_root = est_root \<and> triad gt_chord_type = triad est_chord_type
        then ''orange''
        else ''red'')"

text \<open>A row at the position of a note; the label is \<^verbatim>\<open>"--"\<close> when the estimate kept it.\<close>

definition label_row :: "Note \<Rightarrow> string \<Rightarrow> string option \<Rightarrow> string \<Rightarrow> annot_row" where
  "label_row note est_string prev_est_string color =
     \<lparr>a_label = (if Some est_string \<noteq> prev_est_string then est_string else ''--''),
      a_mc = fst (n_onset note), a_mc_onset = n_mc_onset note,
      a_mn_onset = snd (n_onset note), a_color_name = color\<rparr>"

text \<open>The rows appended for the key and for the chord of one note.\<close>

definition key_rows ::
  "'p prev_labels \<Rightarrow> Note \<Rightarrow> string \<Rightarrow> string \<Rightarrow> string \<times> string \<Rightarrow> int \<times> KeyMode \<Rightarrow>
   annot_row list" where
  "key_rows prev note gt_key_string est_key_string gt_key est_key =
     (if Some gt_key_string \<noteq> prev_gt_key_string prev \<or>
         Some est_key_string \<noteq> prev_est_key_string prev
      then [label_row note est_key_string (prev_est_key_string prev)
              (key_color (fst gt_key) (snd gt_key) (fst est_key) (snd est_key))]
      else [])"

definition chord_rows ::
  "(ChordType \<Rightarrow> ChordType) \<Rightarrow> 'p prev_labels \<Rightarrow> Note \<Rightarrow> string \<Rightarrow> string \<Rightarrow>
   'p option \<Rightarrow> 'p option \<Rightarrow> int \<times> ChordType \<times> int \<Rightarrow> int \<times> ChordType \<times> int \<Rightarrow>
   annot_row list" where
  "chord_rows triad prev note gt_chord_string est_chord_string gt_pitches est_pitches
     gt_chord est_chord =
     (if Some gt_chord_string \<noteq> prev_gt_chord_string prev \<or>
         Some est_chord_string \<noteq> prev_est_chord_string prev \<or>
         est_pitches \<noteq> prev_est_chord_pitches prev \<or>
         gt_pitches \<noteq> prev_gt_chord_pitches prev
      then [label_row note est_chord_string (prev_est_chord_string prev)
              (chord_color triad gt_chord est_chord)]
      else [])"

text \<open>
  One round of the loop: the rows it appends and the \<^verbatim>\<open>prev_...\<close> variables after it.
  The eight lookups run in the order of the source; each list index and the unpacking of
  the ground-truth key can raise.
\<close>

definition annotation_step ::
  "(ChordType \<Rightarrow> ChordType) \<Rightarrow> string list \<Rightarrow> (int \<times> ChordType \<times> int) list \<Rightarrow> string list \<Rightarrow>
   (int \<times> KeyMode) list \<Rightarrow> 'p prev_labels \<Rightarrow>
   rat \<times> Note \<times> int \<times> int \<times> int \<times> int \<times> 'p option \<times> 'p option \<Rightarrow>
   py_error + annot_row list \<times> 'p prev_labels" where
  "annotation_step triad chord_labels chord_list key_labels key_list prev t =
     (case t of (d, note, est_chord_label, gt_chord_label, est_key_label, gt_key_label,
                 est_pitches, gt_pitches) \<Rightarrow>
      if d = 0 then Inr ([], prev) else
      case py_index chord_labels gt_chord_label of Inl e \<Rightarrow> Inl e | Inr gt_chord_string \<Rightarrow>
      case py_index chord_list gt_chord_label of Inl e \<Rightarrow> Inl e | Inr gt_chord \<Rightarrow>
      case py_index key_labels gt_key_label of Inl e \<Rightarrow> Inl e | Inr gt_key_string \<Rightarrow>
      case unpack2 gt_key_string of Inl e \<Rightarrow> Inl e | Inr gt_key \<Rightarrow>
      case py_index chord_labels est_chord_label of Inl e \<Rightarrow> Inl e | Inr est_chord_string \<Rightarrow>
      case py_index chord_list est_chord_label of Inl e \<Rightarrow> Inl e | Inr est_chord \<Rightarrow>
      case py_index key_labels est_key_label of Inl e \<Rightarrow> Inl e | Inr est_key_string \<Rightarrow>
      case py_index key_list est_key_label of Inl e \<Rightarrow> Inl e | Inr est_key \<Rightarrow>
        if Some gt_chord_string = prev_gt_chord_string prev \<and>
           Some gt_key_string = prev_gt_key_string prev \<and>
           Some est_chord_string = prev_est_chord_string prev \<and>
           Some est_key_string = prev_est_key_string prev \<and>
           gt_pitches = prev_gt_chord_pitches prev \<and>
           est_pitches = prev_est_chord_pitches prev
        then Inr ([], prev)
        else Inr (key_rows prev note gt_key_string est_key_string gt_key est_key
                  @ chord_rows triad prev note gt_chord_string est_chord_string gt_pitches
                      est_pitches gt_chord est_chord,
                  \<lparr>prev_gt_chord_string = Some gt_chord_string,
                   prev_gt_key_string = Some gt_key_string,
                   prev_gt_chord_pitches = gt_pitches,
                   prev_est_key_string = Some est_key_string,
                   prev_est_chord_string = Some est_chord_string,
                   prev_est_chord_pitches = est_pitches\<rparr>))"

fun annotation_loop ::
  "(ChordType \<Rightarrow> ChordType) \<Rightarrow> string list \<Rightarrow> (int \<times> ChordType \<times> int) list \<Rightarrow> string list \<Rightarrow>
   (int \<times> KeyMode) list \<Rightarrow> 'p prev_labels \<Rightarrow>
   (rat \<times> Note \<times> int \<times> int \<times> int \<times> int \<times> 'p option \<times> 'p option) list \<Rightarrow>
   py_error + annot_row list" where
  "annotation_loop triad chord_labels chord_list key_labels key_list prev [] = Inr []"
| "annotation_loop triad chord_labels chord_list key_labels key_list prev (t # ts) =
     (case annotation_step triad chord_labels chord_list key_labels key_list prev t of
        Inl e \<Rightarrow> Inl e
      | Inr (rows, prev') \<Rightarrow>
          (case annotation_loop triad chord_labels chord_list key_labels key_list
                  prev' ts of
             Inl e \<Rightarrow> Inl e
           | Inr rest \<Rightarrow> Inr (rows @ rest)))"

text \<open>
  The label arrays. A chord array holds the label and the pitches of each note, which the
  source keeps in two arrays filled with the same slices; the pitches stay \<^verbatim>\<open>None\<close>
  unless \<^verbatim>\<open>use_chord_pitches\<close> is set. The ground-truth arrays start at \<open>-1\<close> and are
  filled only when the piece has a chord, or a key.
\<close>

definition annot_gt_chords ::
  "('p, 'red) annotation_methods \<Rightarrow> 'm ScorePiece \<Rightarrow> PitchType \<Rightarrow> bool \<Rightarrow> 'red \<Rightarrow> bool \<Rightarrow>
   py_error + (int \<times> 'p option) list" where
  "annot_gt_chords methods piece root_type use_inversions reduction use_chord_pitches =
     (let arr = replicate (length (sp_notes piece)) (- 1, None)
      in if length (sp_chords piece) > 0
         then broadcast_gt arr
                (map (\<lambda>chord. (chord_one_hot_index methods root_type use_inversions reduction chord,
                               if use_chord_pitches
                               then Some (chord_pitches_of methods root_type chord) else None))
                     (sp_chords piece))
                (sp_chord_changes piece)
         else Inr arr)"

definition annot_est_chords ::
  "'m ScorePiece \<Rightarrow> 'p State \<Rightarrow> bool \<Rightarrow> (int \<times> 'p option) list" where
  "annot_est_chords piece state use_chord_pitches =
     broadcast_segments (replicate (length (sp_notes piece)) (0, None))
       (map (\<lambda>(chord, pitches). (chord, if use_chord_pitches then Some pitches else None))
            (zip (st_chords state) (st_chord_pitches state)))
       (st_chord_changes state)"

definition annot_gt_keys ::
  "('p, 'red) annotation_methods \<Rightarrow> 'm ScorePiece \<Rightarrow> PitchType \<Rightarrow> py_error + int list" where
  "annot_gt_keys methods piece tonic_type =
     (if length (sp_keys piece) > 0
      then (case get_key_change_input_indices piece of
              Inl e \<Rightarrow> Inl e
            | Inr gt_changes \<Rightarrow>
                broadcast_gt (replicate (length (sp_notes piece)) 0)
                  (map (key_one_hot_index methods tonic_type) (sp_keys piece)) gt_changes)
      else Inr (replicate (length (sp_notes piece)) (- 1)))"

definition annot_est_keys :: "'m ScorePiece \<Rightarrow> 'p State \<Rightarrow> int list" where
  "annot_est_keys piece state =
     broadcast_segments (replicate (length (sp_notes piece)) 0) (st_keys state)
       (st_key_changes state)"

text \<open>
  The function. \<^verbatim>\<open>ru.get_range_length\<close>, which \<^verbatim>\<open>get_duration_cache\<close> calls, is a
  parameter as before.
\<close>

definition get_results_annotation_df ::
  "('p, 'red) annotation_methods \<Rightarrow> (position \<Rightarrow> position \<Rightarrow> 'm \<Rightarrow> rat) \<Rightarrow> 'p State \<Rightarrow>
   'm ScorePiece \<Rightarrow> PitchType \<Rightarrow> PitchType \<Rightarrow> bool \<Rightarrow> 'red \<Rightarrow> bool \<Rightarrow>
   py_error + annot_row list" where
  "get_results_annotation_df methods get_range_length state piece root_type tonic_type
     use_inversions reduction use_chord_pitches =
     (case annot_gt_chords methods piece root_type use_inversions reduction use_chord_pitches of
        Inl e \<Rightarrow> Inl e
      | Inr gt_chords \<Rightarrow>
     (let est_chords = annot_est_chords piece state use_chord_pitches
      in case annot_gt_keys methods piece tonic_type of
        Inl e \<Rightarrow> Inl e
      | Inr gt_key_labels \<Rightarrow>
     (let estimated_key_labels = annot_est_keys piece state
      in case get_duration_cache get_range_length piece of
        Inl e \<Rightarrow> Inl e
      | Inr cache \<Rightarrow>
          annotation_loop (TRIAD_REDUCTION methods)
            (get_chord_label_list methods root_type use_inversions reduction)
            (get_chord_from_one_hot_index methods root_type use_inversions reduction)
            (get_key_label_list methods tonic_type)
            (get_key_from_one_hot_index methods tonic_type)
            no_prev_labels
            (zip cache (zip (sp_notes piece) (zip (map fst est_chords) (zip (map fst gt_chords)
               (zip estimated_key_labels (zip gt_key_labels
                  (zip (map snd est_chords) (map snd gt_chords)))))))))))"
subsection \<open>Descriptions of the evaluation results\<close>

text \<open>The rows a filter leaves, and a row in which every requested feature matches.\<close>

definition selected_rows :: "'a list \<Rightarrow> bool list option \<Rightarrow> 'a list" where
  "selected_rows df flt = (case flt of None \<Rightarrow> df | Some m \<Rightarrow> mask_select df m)"

definition all_match :: "feature list \<Rightarrow> result_row \<Rightarrow> bool" where
  "all_match features row = list_all (\<lambda>f. py_eq (gt row f) (est row f)) features"

text \<open>
  Note \<open>j\<close> lies in segment \<open>i\<close> of the ground truth, which runs from change \<open>i\<close>
  to the next change and, for the last segment, to the end; and in segment \<open>i\<close> of an
  estimate, which runs from boundary \<open>i\<close> to boundary \<open>i + 1\<close>.
\<close>

definition in_gt_segment :: "nat list \<Rightarrow> nat \<Rightarrow> nat \<Rightarrow> bool" where
  "in_gt_segment changes i j =
     (i < length changes \<and> changes ! i \<le> j \<and>
      (if i + 1 < length changes then j < changes ! (i + 1) else True))"

definition in_est_segment :: "nat list \<Rightarrow> nat \<Rightarrow> nat \<Rightarrow> bool" where
  "in_est_segment changes i j =
     (i + 1 < length changes \<and> changes ! i \<le> j \<and> j < changes ! (i + 1))"

section \<open>Example data\<close>

text \<open>A note that starts at beat \<open>b\<close> of measure \<open>mc\<close> and lasts one measure.\<close>

definition note_at :: "int \<Rightarrow> rat \<Rightarrow> Note" where
  "note_at mc b =
     \<lparr>n_pitch_class = 15, n_octave = 4, n_onset = (mc, b), n_onset_level = 0, n_duration = 1,
      n_offset = (mc + 1, b), n_offset_level = 0, n_pitch_type = TPC, n_mc_onset = b\<rparr>"

text \<open>A note with the given onset and offset.\<close>

definition note_span :: "position \<Rightarrow> position \<Rightarrow> Note" where
  "note_span on off =
     \<lparr>n_pitch_class = 15, n_octave = 4, n_onset = on, n_onset_level = 0, n_duration = 1,
      n_offset = off, n_offset_level = 0, n_pitch_type = TPC, n_mc_onset = snd on\<rparr>"

text \<open>A chord in C major with the given root, type, inversion, onset, offset and duration.\<close>

definition chord_of :: "int \<Rightarrow> ChordType \<Rightarrow> int \<Rightarrow> position \<Rightarrow> position \<Rightarrow> rat \<Rightarrow> Chord" where
  "chord_of r t i on off d =
     \<lparr>c_root = r, c_bass = r, c_chord_type = t, c_inversion = i, c_onset = on, c_offset = off,
      c_duration = d, c_key_tonic = 15, c_key_mode = KM_MAJOR, c_pitch_type = TPC,
      c_suspension = None\<rparr>"

text \<open>
  Row methods for the examples: a row of the notes frame is the parsed note, the rest of a
  chord row is the parsed chord, chords repeat and merge as the spec says, and every chord
  row gives the key of C major; two keys repeat when tonic and mode agree.
\<close>

definition example_key :: Key where
  "example_key =
     \<lparr>k_tonic = 15, k_mode = KM_MAJOR, k_pitch_type = TPC, k_relative_tonic = 15,
      k_relative_mode = KM_MAJOR\<rparr>"

definition example_methods :: "(Note option, Chord option, unit) row_methods" where
  "example_methods =
     \<lparr>note_from_series = (\<lambda>row. row),
      chord_from_series = (\<lambda>reduction use_inversion use_relative row. other_columns row),
      key_from_series = (\<lambda>row. Some example_key),
      chord_is_repeated = is_repeated,
      chord_merge_with = merge_with,
      key_is_repeated = (\<lambda>use_relative next_obj prev_obj.
         k_tonic next_obj = k_tonic prev_obj \<and> k_mode next_obj = k_mode prev_obj)\<rparr>"

text \<open>A chord row in C major whose chord is the given one.\<close>

definition chord_row_of :: "Chord \<Rightarrow> Chord option chord_row" where
  "chord_row_of chord =
     \<lparr>globalkey = StrCell ''C'', globalkey_is_minor = BoolCell False,
      localkey_is_minor = BoolCell False, localkey = StrCell ''I'', relativeroot = NaN,
      other_columns = Some chord\<rparr>"

text \<open>
  A piece of three notes and two chords: the first note is held while the second chord
  starts together with the second note.
\<close>

definition example_piece :: "unit ScorePiece" where
  "example_piece =
     \<lparr>measures_df = (),
      sp_notes = [note_span (0, 0) (2, 0), note_span (1, 0) (2, 0), note_span (2, 0) (3, 0)],
      sp_chords = [chord_of 15 MAJOR 0 (0, 0) (1, 0) 1, chord_of 22 MINOR 0 (1, 0) (3, 0) 2],
      sp_keys = [example_key],
      sp_chord_changes = [0, 1], sp_chord_ranges = [(0, 1), (0, 3)], sp_key_changes = [0],
      sp_name = None, sp_duration_cache = None\<rparr>"

text \<open>
  A piece of ten notes, one per measure, with a duration cache of one measure per note,
  and a stand-in for \<^verbatim>\<open>to_vec\<close> that gives each note the row of its measure and
  octave, which is not all zero.
\<close>

definition ten_notes :: "Note list" where
  "ten_notes = map (\<lambda>mc. note_at mc 0) [0, 1, 2, 3, 4, 5, 6, 7, 8, 9]"

definition example_to_vec :: "Note \<Rightarrow> unit to_vec_kwargs \<Rightarrow> real list" where
  "example_to_vec note kwargs = [1 + of_int (fst (n_onset note)), of_int (n_octave note)]"

definition example_midi_number :: "Note \<Rightarrow> int" where
  "example_midi_number note = 12 * n_octave note"

definition ten_durations :: "rat list" where
  "ten_durations = [1, 1, 1, 1, 1, 1, 1, 1, 1, 1]"

text \<open>
  A row of a results frame whose estimate has the given root and agrees with the ground
  truth, of root 14, in every other feature.
\<close>

definition example_row :: "int \<Rightarrow> rat \<Rightarrow> result_row" where
  "example_row est_root d =
     \<lparr>gt = (\<lambda>f. IntV 14), est = (\<lambda>f. if f = F_root then IntV est_root else IntV 14),
      duration = d\<rparr>"

text \<open>Dictionary methods for the examples: the dictionary of an object is the object.\<close>

definition example_dict_methods :: "(Note, Chord, Key) dict_methods" where
  "example_dict_methods =
     \<lparr>note_to_dict = (\<lambda>n. n), note_of_dict = (\<lambda>d. d),
      chord_to_dict = (\<lambda>c. c), chord_of_dict = (\<lambda>d. d),
      key_to_dict = (\<lambda>k. k), key_of_dict = (\<lambda>d. d)\<rparr>"


text \<open>
  The example piece with a duration cache in which the second note is a grace note of
  duration zero; an estimate of two chords that change at the third note, in one key;
  and label methods for the chords and keys of the examples: a major chord has label 0
  and root 15, a minor chord label 1 and root 22; a major key has label 0 and tonic 15,
  a minor key label 1 and tonic 16.
\<close>

definition results_piece :: "unit ScorePiece" where
  "results_piece = example_piece\<lparr>sp_duration_cache := Some [1, 0, 1]\<rparr>"

definition example_state :: "unit State" where
  "example_state =
     \<lparr>st_chords = [0, 1], st_chord_changes = [0, 2, 3], st_chord_pitches = [(), ()],
      st_keys = [0], st_key_changes = [0, 3]\<rparr>"

definition example_chord_entry :: "int \<Rightarrow> int \<Rightarrow> ChordType \<Rightarrow> chord_entry" where
  "example_chord_entry lbl r chord_type =
     \<lparr>ce_label = lbl, ce_root = r, ce_chord_type = TypeV chord_type,
      ce_triad = TypeV chord_type, ce_inversion = 0, ce_pitches = StrV ''()'',
      ce_is_default = True\<rparr>"

definition example_label_methods :: "unit label_methods" where
  "example_label_methods =
     \<lparr>gt_chord_entry = (\<lambda>root_type chord.
         example_chord_entry (if c_chord_type chord = MAJOR then 0 else 1) (c_root chord)
           (c_chord_type chord)),
      est_chord_entry = (\<lambda>output_type root_type lbl pitches.
         if lbl = 0 then example_chord_entry 0 15 MAJOR else example_chord_entry 1 22 MINOR),
      gt_key_entry = (\<lambda>tonic_type key.
         \<lparr>ke_label = (if k_mode key = KM_MAJOR then 0 else 1), ke_tonic = k_tonic key,
          ke_mode = ModeV (k_mode key)\<rparr>),
      est_key_entry = (\<lambda>output_type tonic_type lbl.
         if lbl = 0 then \<lparr>ke_label = 0, ke_tonic = 15, ke_mode = ModeV KM_MAJOR\<rparr>
         else \<lparr>ke_label = 1, ke_tonic = 16, ke_mode = ModeV KM_MINOR\<rparr>),
      chord_label_list = (\<lambda>root_type. [''C:M'', ''G:m'']),
      key_label_list = (\<lambda>tonic_type. [''C:M'', ''G:m''])\<rparr>"

text \<open>
  A piece of four notes in two keys: the first chord and key cover notes 0 and 1, the
  second chord and key notes 2 and 3, so the second key changes at chord 1, which is
  note 2; the third note is a grace note of duration zero. An estimate that changes
  chord one note early, at note 1, and key at note 2.
\<close>

definition second_key :: Key where
  "second_key =
     \<lparr>k_tonic = 16, k_mode = KM_MINOR, k_pitch_type = TPC, k_relative_tonic = 16,
      k_relative_mode = KM_MINOR\<rparr>"

definition two_key_piece :: "unit ScorePiece" where
  "two_key_piece =
     \<lparr>measures_df = (),
      sp_notes = [note_span (0, 0) (1, 0), note_span (1, 0) (2, 0), note_span (2, 0) (2, 0),
                  note_span (2, 0) (3, 0)],
      sp_chords = [chord_of 15 MAJOR 0 (0, 0) (2, 0) 2, chord_of 22 MINOR 0 (2, 0) (3, 0) 1],
      sp_keys = [example_key, second_key],
      sp_chord_changes = [0, 2], sp_chord_ranges = [(0, 2), (2, 4)], sp_key_changes = [0, 1],
      sp_name = None, sp_duration_cache = Some [1, 1, 0, 1]\<rparr>"

definition two_key_state :: "unit State" where
  "two_key_state =
     \<lparr>st_chords = [0, 1], st_chord_changes = [0, 1, 4], st_chord_pitches = [(), ()],
      st_keys = [0, 1], st_key_changes = [0, 2, 4]\<rparr>"

text \<open>
  Annotation methods for the examples, with the given key label strings: the chord
  labels and triples of the two chords of the examples, the key of C major, and a triad
  reduction that leaves the two triads as they are.
\<close>

definition example_annotation_methods :: "string list \<Rightarrow> (unit, unit) annotation_methods" where
  "example_annotation_methods key_labels =
     \<lparr>chord_one_hot_index = (\<lambda>root_type use_inversions reduction chord.
         if c_chord_type chord = MAJOR then 0 else 1),
      chord_pitches_of = (\<lambda>root_type chord. ()),
      key_one_hot_index = (\<lambda>tonic_type key. 0),
      get_chord_label_list = (\<lambda>root_type use_inversions reduction. [''C:M'', ''G:m'']),
      get_chord_from_one_hot_index = (\<lambda>root_type use_inversions reduction.
         [(15, MAJOR, 0), (22, MINOR, 0)]),
      get_key_label_list = (\<lambda>tonic_type. key_labels),
      get_key_from_one_hot_index = (\<lambda>tonic_type. [(15, KM_MAJOR)]),
      TRIAD_REDUCTION = (\<lambda>chord_type. chord_type)\<rparr>"
section \<open>Binary search\<close>

lemma bisect_loop_stop: "\<not> lo < hi \<Longrightarrow> bisect_loop a x lo hi = lo"
  by (subst bisect_loop.simps) simp

lemma bisect_loop_step:
  "lo < hi \<Longrightarrow> bisect_loop a x lo hi =
     (if a ! ((lo + hi) div 2) < x then bisect_loop a x ((lo + hi) div 2 + 1) hi
      else bisect_loop a x lo ((lo + hi) div 2))"
  by (subst bisect_loop.simps) (simp add: Let_def)

lemma bisect_loop_bounds:
  "lo \<le> hi \<Longrightarrow> lo \<le> bisect_loop a x lo hi \<and> bisect_loop a x lo hi \<le> hi"
proof (induction a x lo hi rule: bisect_loop.induct)
  case (1 a x lo hi)
  show ?case
  proof (cases "lo < hi")
    case False
    then show ?thesis using "1.prems" by (simp add: bisect_loop_stop)
  next
    case True
    let ?mid = "(lo + hi) div 2"
    have m: "lo \<le> ?mid" "?mid < hi" using True by auto
    show ?thesis
    proof (cases "a ! ?mid < x")
      case lt: True
      from "1.IH"(1)[OF True refl lt] m
      have "?mid + 1 \<le> bisect_loop a x (?mid + 1) hi \<and> bisect_loop a x (?mid + 1) hi \<le> hi"
        by simp
      with m lt True show ?thesis by (simp add: bisect_loop_step)
    next
      case ge: False
      from "1.IH"(2)[OF True refl ge] m
      have "lo \<le> bisect_loop a x lo ?mid \<and> bisect_loop a x lo ?mid \<le> ?mid"
        by simp
      with m ge True show ?thesis by (simp add: bisect_loop_step)
    qed
  qed
qed

text \<open>When every element is smaller than \<open>x\<close>, the search runs to the upper bound.\<close>

lemma bisect_loop_all_less:
  "lo \<le> hi \<Longrightarrow> hi \<le> length a \<Longrightarrow> \<forall>i < length a. a ! i < x \<Longrightarrow> bisect_loop a x lo hi = hi"
proof (induction a x lo hi rule: bisect_loop.induct)
  case (1 a x lo hi)
  show ?case
  proof (cases "lo < hi")
    case False
    then show ?thesis using "1.prems" by (simp add: bisect_loop_stop)
  next
    case True
    let ?mid = "(lo + hi) div 2"
    have m: "lo \<le> ?mid" "?mid < hi" using True by auto
    have lt: "a ! ?mid < x" using m "1.prems" by simp
    from "1.IH"(1)[OF True refl lt] m "1.prems"
    have "bisect_loop a x (?mid + 1) hi = hi" by simp
    with lt True show ?thesis by (simp add: bisect_loop_step)
  qed
qed

text \<open>
  A result below the upper bound is an index whose element is not smaller than \<open>x\<close>:
  the search lowered \<open>hi\<close> to it after such a comparison. No sortedness is needed.
\<close>

lemma bisect_loop_not_less:
  "lo \<le> hi \<Longrightarrow> bisect_loop a x lo hi < hi \<Longrightarrow> \<not> a ! (bisect_loop a x lo hi) < x"
proof (induction a x lo hi rule: bisect_loop.induct)
  case (1 a x lo hi)
  show ?case
  proof (cases "lo < hi")
    case False
    then show ?thesis using "1.prems" by (simp add: bisect_loop_stop)
  next
    case True
    let ?mid = "(lo + hi) div 2"
    have m: "lo \<le> ?mid" "?mid < hi" using True by auto
    show ?thesis
    proof (cases "a ! ?mid < x")
      case lt: True
      have eq: "bisect_loop a x lo hi = bisect_loop a x (?mid + 1) hi"
        using lt True by (simp add: bisect_loop_step)
      from "1.IH"(1)[OF True refl lt] m "1.prems" eq show ?thesis by simp
    next
      case ge: False
      have eq: "bisect_loop a x lo hi = bisect_loop a x lo ?mid"
        using ge True by (simp add: bisect_loop_step)
      have b: "bisect_loop a x lo ?mid \<le> ?mid" using bisect_loop_bounds[of lo ?mid a x] m by simp
      show ?thesis
      proof (cases "bisect_loop a x lo ?mid < ?mid")
        case True
        from "1.IH"(2)[OF \<open>lo < hi\<close> refl ge] m True eq show ?thesis by simp
      next
        case False
        with b have "bisect_loop a x lo ?mid = ?mid" by simp
        with eq ge show ?thesis by simp
      qed
    qed
  qed
qed

text \<open>On a sorted sequence the search returns the number of elements smaller than \<open>x\<close>.\<close>

lemma bisect_loop_sorted:
  "sorted a \<Longrightarrow> lo \<le> hi \<Longrightarrow> hi \<le> length a \<Longrightarrow>
   \<forall>i < lo. a ! i < x \<Longrightarrow> \<forall>i. hi \<le> i \<and> i < length a \<longrightarrow> \<not> a ! i < x \<Longrightarrow>
   (\<forall>i < bisect_loop a x lo hi. a ! i < x) \<and>
   (\<forall>i. bisect_loop a x lo hi \<le> i \<and> i < length a \<longrightarrow> \<not> a ! i < x)"
proof (induction a x lo hi rule: bisect_loop.induct)
  case (1 a x lo hi)
  show ?case
  proof (cases "lo < hi")
    case False
    then show ?thesis using "1.prems" by (simp add: bisect_loop_stop)
  next
    case True
    let ?mid = "(lo + hi) div 2"
    have m: "lo \<le> ?mid" "?mid < hi" using True by auto
    show ?thesis
    proof (cases "a ! ?mid < x")
      case lt: True
      have eq: "bisect_loop a x lo hi = bisect_loop a x (?mid + 1) hi"
        using lt True by (simp add: bisect_loop_step)
      have below: "\<forall>i < ?mid + 1. a ! i < x"
      proof (intro allI impI)
        fix i assume "i < ?mid + 1"
        then have "i \<le> ?mid" by simp
        then have "a ! i \<le> a ! ?mid"
          using \<open>sorted a\<close> m "1.prems"(3) by (intro sorted_nth_mono) auto
        with lt show "a ! i < x" by simp
      qed
      from "1.IH"(1)[OF True refl lt \<open>sorted a\<close> _ "1.prems"(3) below "1.prems"(5)] m eq
      show ?thesis by simp
    next
      case ge: False
      have eq: "bisect_loop a x lo hi = bisect_loop a x lo ?mid"
        using ge True by (simp add: bisect_loop_step)
      have above: "\<forall>i. ?mid \<le> i \<and> i < length a \<longrightarrow> \<not> a ! i < x"
      proof (intro allI impI)
        fix i assume "?mid \<le> i \<and> i < length a"
        then have "a ! ?mid \<le> a ! i"
          using \<open>sorted a\<close> by (intro sorted_nth_mono) auto
        with ge show "\<not> a ! i < x" by simp
      qed
      have "?mid \<le> length a" using m "1.prems"(3) by simp
      from "1.IH"(2)[OF True refl ge \<open>sorted a\<close> m(1) this "1.prems"(4) above] eq
      show ?thesis by simp
    qed
  qed
qed

section \<open>Forced positions and range queries\<close>

lemma bisect_left_all_less:
  "\<forall>p \<in> set a. p < x \<Longrightarrow> bisect_left a x 0 = length a"
  unfolding bisect_left_def by (rule bisect_loop_all_less) auto

lemma bisect_left_le_length: "bisect_left a x 0 \<le> length a"
  unfolding bisect_left_def using bisect_loop_bounds[of 0 "length a" a x] by simp

lemma bisect_left_not_less:
  "bisect_left a x 0 < length a \<Longrightarrow> \<not> a ! (bisect_left a x 0) < x"
  unfolding bisect_left_def by (rule bisect_loop_not_less) auto

lemma convert_force_after_all:
  "\<forall>p \<in> set ps. p < force_position f \<Longrightarrow> convert_force ps f = Inl IndexError"
  by (simp add: convert_force_def bisect_left_all_less)

lemma convert_force_ValueError:
  assumes "convert_force ps f = Inl ValueError"
  shows "\<exists>p \<in> set ps. force_position f < p"
proof -
  let ?k = "bisect_left ps (force_position f) 0"
  from assms have k: "?k < length ps" and ne: "ps ! ?k \<noteq> force_position f"
    by (auto simp: convert_force_def Let_def split: if_splits)
  from bisect_left_not_less[OF k] ne have "force_position f < ps ! ?k" by auto
  with k show ?thesis by (metis nth_mem)
qed

lemma convert_loop_append_error:
  "\<forall>g \<in> set fs1. \<exists>r. convert_force ps g = Inr r \<Longrightarrow> convert_force ps f = Inl e \<Longrightarrow>
   convert_loop ps (fs1 @ f # fs2) = Inl e"
  by (induction fs1) auto

lemma convert_loop_all_ok:
  "convert_loop ps fs = Inr rs \<Longrightarrow>
   length rs = length fs \<and> (\<forall>i < length fs. convert_force ps (fs ! i) = Inr (rs ! i))"
proof (induction fs arbitrary: rs)
  case Nil
  then show ?case by simp
next
  case (Cons f fs)
  then obtain r rs' where r: "convert_force ps f = Inr r" "convert_loop ps fs = Inr rs'" "rs = r # rs'"
    by (auto split: sum.splits)
  with Cons.IH[OF r(2)] show ?case by (auto simp: nth_Cons split: nat.splits)
qed

text \<open>
  Claim C10. A forced position that sorts strictly after the onset of every note makes
  \<^verbatim>\<open>bisect_left\<close> return \<^verbatim>\<open>len(note_positions)\<close>, and the function raises
  \<^verbatim>\<open>IndexError\<close> (for the first such force that no failing force precedes) instead of
  the \<^verbatim>\<open>ValueError\<close> of an unaligned position. The \<^verbatim>\<open>ValueError\<close> is raised only
  for a position that some note's onset follows; when the notes are in onset order, that
  is a position before the last note's onset.
\<close>

theorem convert_score_positions_upper_boundary:
  "((\<forall>n \<in> set inputs. n_onset n < force_position f) \<longrightarrow>
      bisect_left (map n_onset inputs) (force_position f) 0 = length inputs \<and>
      convert_force (map n_onset inputs) f = Inl IndexError \<and>
      ((\<forall>g \<in> set before. \<exists>r. convert_force (map n_onset inputs) g = Inr r) \<longrightarrow>
         convert_score_positions_to_note_indexes (before @ f # rest) inputs = Inl IndexError)) \<and>
   (convert_force (map n_onset inputs) f = Inl ValueError \<longrightarrow>
      (\<exists>n \<in> set inputs. force_position f < n_onset n) \<and>
      (sorted (map n_onset inputs) \<longrightarrow> inputs \<noteq> [] \<and> force_position f < n_onset (last inputs)))"
proof (intro conjI impI)
  assume a: "\<forall>n \<in> set inputs. n_onset n < force_position f"
  then have a': "\<forall>p \<in> set (map n_onset inputs). p < force_position f" by simp
  from bisect_left_all_less[OF a']
  show "bisect_left (map n_onset inputs) (force_position f) 0 = length inputs" by simp
  show e: "convert_force (map n_onset inputs) f = Inl IndexError"
    by (rule convert_force_after_all[OF a'])
  assume "\<forall>g \<in> set before. \<exists>r. convert_force (map n_onset inputs) g = Inr r"
  then show "convert_score_positions_to_note_indexes (before @ f # rest) inputs = Inl IndexError"
    unfolding convert_score_positions_to_note_indexes_def
    using e by (rule convert_loop_append_error)
next
  assume v: "convert_force (map n_onset inputs) f = Inl ValueError"
  from convert_force_ValueError[OF v]
  show ex: "\<exists>n \<in> set inputs. force_position f < n_onset n" by auto
  assume s: "sorted (map n_onset inputs)"
  from ex show "inputs \<noteq> []" by auto
  from ex obtain n where n: "n \<in> set inputs" "force_position f < n_onset n" by auto
  then obtain i where i: "i < length inputs" "inputs ! i = n" by (auto simp: in_set_conv_nth)
  have "map n_onset inputs ! i \<le> map n_onset inputs ! (length inputs - 1)"
    using s i by (intro sorted_nth_mono) auto
  then have "n_onset n \<le> n_onset (last inputs)"
    using i \<open>inputs \<noteq> []\<close> by (simp add: last_conv_nth)
  with n show "force_position f < n_onset (last inputs)" by simp
qed

theorem convert_score_positions_upper_boundary_witness:
  "bisect_left (map n_onset [note_at 0 0, note_at 1 0]) (2, 0) 0 = 2 \<and>
   convert_score_positions_to_note_indexes
     [Force2 0 0, Force2 2 0 :: unit force] [note_at 0 0, note_at 1 0] = Inl IndexError \<and>
   convert_force (map n_onset [note_at 0 0, note_at 1 0]) (Force2 0 (1 / 2) :: unit force) =
     Inl ValueError \<and>
   ((0, 1 / 2) :: position) < n_onset (last [note_at 0 0, note_at 1 0])"
proof -
  let ?inputs = "[note_at 0 0, note_at 1 0]"
  have ok: "convert_force (map n_onset ?inputs) (Force2 0 0 :: unit force) = Inr (NoteIndex 0)"
    by (simp add: convert_force_def bisect_left_def note_at_def bisect_loop_step bisect_loop_stop)
  have v: "convert_force (map n_onset ?inputs) (Force2 0 (1 / 2) :: unit force) = Inl ValueError"
    by (simp add: convert_force_def bisect_left_def note_at_def bisect_loop_step bisect_loop_stop)
  have after: "\<forall>n \<in> set ?inputs. n_onset n < force_position (Force2 2 0 :: unit force)"
    by (simp add: note_at_def)
  have srt: "sorted (map n_onset ?inputs)" by (simp add: note_at_def)
  from convert_score_positions_upper_boundary
         [of ?inputs "Force2 2 0 :: unit force" "[Force2 0 0]" "[]"] after ok
  have 1: "bisect_left (map n_onset ?inputs) (2, 0) 0 = 2 \<and>
           convert_score_positions_to_note_indexes
             [Force2 0 0, Force2 2 0 :: unit force] ?inputs = Inl IndexError"
    by simp
  from convert_score_positions_upper_boundary
         [of ?inputs "Force2 0 (1 / 2) :: unit force" "[]" "[]"] v srt
  have 2: "((0, 1 / 2) :: position) < n_onset (last ?inputs)" by simp
  from 1 2 v show ?thesis by simp
qed

lemma get_chords_within_range_raises:
  "(\<exists>e. get_chords_within_range chords chord_change_indices start stop = Inl e) \<longleftrightarrow>
     (\<exists>s. stop = Some s \<and> s < start)"
  by (cases stop) (auto simp: get_chords_within_range_def Let_def)

lemma get_chords_within_range_AssertionError:
  "get_chords_within_range chords chord_change_indices start stop = Inl e \<Longrightarrow>
   e = AssertionError"
  by (cases stop) (auto simp: get_chords_within_range_def Let_def split: if_splits)

text \<open>
  On notes in onset order, a forced position that is a note's onset is converted to the
  index of the first note with that onset, and a position that is no note's onset, but
  not after all of them, raises \<^verbatim>\<open>ValueError\<close>.
\<close>

lemma bisect_left_sorted:
  assumes "sorted a"
  shows "(\<forall>i < bisect_left a x 0. a ! i < x) \<and>
         (\<forall>i. bisect_left a x 0 \<le> i \<and> i < length a \<longrightarrow> \<not> a ! i < x)"
  unfolding bisect_left_def using assms by (intro bisect_loop_sorted) auto

lemma convert_force_onset:
  assumes "sorted ps" and "force_position f \<in> set ps"
  shows "\<exists>k < length ps. convert_force ps f = Inr (with_index k f) \<and>
           ps ! k = force_position f \<and> (\<forall>i < k. ps ! i < force_position f)"
proof -
  let ?x = "force_position f" and ?k = "bisect_left ps (force_position f) 0"
  from assms(2) obtain j where j: "j < length ps" "ps ! j = ?x" by (auto simp: in_set_conv_nth)
  note b = bisect_left_sorted[OF assms(1), of ?x]
  have kj: "?k \<le> j"
  proof (rule ccontr)
    assume "\<not> ?k \<le> j"
    then have "ps ! j < ?x" using b by simp
    with j show False by simp
  qed
  with j have k: "?k < length ps" by simp
  have "ps ! ?k \<le> ps ! j" using assms(1) kj j by (intro sorted_nth_mono) auto
  moreover have "\<not> ps ! ?k < ?x" using b k by simp
  ultimately have eq: "ps ! ?k = ?x" using j by simp
  have "convert_force ps f = Inr (with_index ?k f)"
    using k eq by (simp add: convert_force_def)
  with k eq b show ?thesis by blast
qed

lemma convert_force_unaligned:
  assumes "sorted ps" and "force_position f \<notin> set ps"
    and "\<exists>p \<in> set ps. \<not> p < force_position f"
  shows "convert_force ps f = Inl ValueError"
proof -
  let ?x = "force_position f" and ?k = "bisect_left ps (force_position f) 0"
  note b = bisect_left_sorted[OF assms(1), of ?x]
  from assms(3) obtain j where j: "j < length ps" "\<not> ps ! j < ?x"
    by (auto simp: in_set_conv_nth)
  have "?k \<le> j"
  proof (rule ccontr)
    assume "\<not> ?k \<le> j"
    then have "ps ! j < ?x" using b by simp
    with j show False by simp
  qed
  with j have k: "?k < length ps" by simp
  then have "ps ! ?k \<in> set ps" by simp
  with assms(2) have "ps ! ?k \<noteq> ?x" by auto
  with k show ?thesis by (simp add: convert_force_def)
qed

text \<open>
  Claim C8, at the input where the code departs from it: the forced position
  \<open>(2, 0)\<close> is the onset of no note of a piece whose notes start at \<open>(0, 0)\<close> and
  \<open>(1, 0)\<close>, and the function raises \<^verbatim>\<open>IndexError\<close>, not \<^verbatim>\<open>ValueError\<close>. The
  other half of the claim holds: \<open>get_chords_within_range_raises\<close>.
\<close>

theorem convert_score_positions_IndexError_at_unaligned:
  "(2, 0) \<notin> set (map n_onset [note_at 0 0, note_at 1 0]) \<and>
   convert_score_positions_to_note_indexes [Force2 2 0 :: unit force] [note_at 0 0, note_at 1 0]
     = Inl IndexError"
  by (simp add: convert_score_positions_to_note_indexes_def convert_force_def bisect_left_def
      note_at_def bisect_loop_step bisect_loop_stop)

section \<open>The reduction mask and the merged chord sequence\<close>

lemma fold_mask_length:
  "length (fold (\<lambda>(k, (p, q)) m. if rep q p then m[k + 1 := False] else m) (enumerate n ps) msk)
     = length msk"
  by (induction ps arbitrary: n msk) (auto split: prod.splits)

lemma fold_mask_nth:
  "j < length msk \<Longrightarrow>
   fold (\<lambda>(k, (p, q)) m. if rep q p then m[k + 1 := False] else m) (enumerate n ps) msk ! j =
     (if n < j \<and> j - Suc n < length ps \<and> rep (snd (ps ! (j - Suc n))) (fst (ps ! (j - Suc n)))
      then False else msk ! j)"
proof (induction ps arbitrary: n msk)
  case Nil
  then show ?case by simp
next
  case (Cons a ps)
  obtain p q where a: "a = (p, q)" by (cases a)
  let ?m = "if rep q p then msk[n + 1 := False] else msk"
  have len: "j < length ?m" using Cons.prems by simp
  have "fold (\<lambda>(k, (p, q)) m. if rep q p then m[k + 1 := False] else m) (enumerate n (a # ps)) msk ! j
      = fold (\<lambda>(k, (p, q)) m. if rep q p then m[k + 1 := False] else m) (enumerate (Suc n) ps) ?m ! j"
    by (simp add: a)
  also have "\<dots> = (if Suc n < j \<and> j - Suc (Suc n) < length ps \<and>
        rep (snd (ps ! (j - Suc (Suc n)))) (fst (ps ! (j - Suc (Suc n))))
      then False else ?m ! j)"
    by (rule Cons.IH[OF len])
  also have "\<dots> = (if n < j \<and> j - Suc n < length (a # ps) \<and>
        rep (snd ((a # ps) ! (j - Suc n))) (fst ((a # ps) ! (j - Suc n)))
      then False else msk ! j)"
    using Cons.prems by (auto simp: a nth_Cons' nth_list_update less_Suc_eq)
  finally show ?case .
qed

lemma get_reduction_mask_length: "length (get_reduction_mask rep inputs) = length inputs"
  by (simp add: get_reduction_mask_def fold_mask_length)

lemma zip_butlast_tl_nth:
  "k + 1 < length xs \<Longrightarrow> zip (butlast xs) (tl xs) ! k = (xs ! k, xs ! (k + 1))"
  by (simp add: nth_butlast nth_tl)

lemma get_reduction_mask_nth:
  assumes "i < length inputs"
  shows "get_reduction_mask rep inputs ! i = (i = 0 \<or> \<not> rep (inputs ! i) (inputs ! (i - 1)))"
proof (cases i)
  case 0
  with assms show ?thesis by (simp add: get_reduction_mask_def fold_mask_nth)
next
  case (Suc k)
  with assms have k: "k + 1 < length inputs" by simp
  then have "k < length (zip (butlast inputs) (tl inputs))" by simp
  with assms Suc zip_butlast_tl_nth[OF k] show ?thesis
    by (simp add: get_reduction_mask_def fold_mask_nth)
qed

lemma mask_after_length: "length (mask_after rep l ys) = length ys"
  by (induction ys arbitrary: l) auto

lemma mask_after_nth:
  "i < length ys \<Longrightarrow> mask_after rep l ys ! i = (\<not> rep (ys ! i) ((l # ys) ! i))"
  by (induction ys arbitrary: l i) (auto simp: nth_Cons')

lemma get_reduction_mask_Cons:
  "get_reduction_mask rep (x # xs) = True # mask_after rep x xs"
proof (rule nth_equalityI)
  show "length (get_reduction_mask rep (x # xs)) = length (True # mask_after rep x xs)"
    by (simp add: get_reduction_mask_length mask_after_length)
  fix i assume "i < length (get_reduction_mask rep (x # xs))"
  then have i: "i < length (x # xs)" by (simp add: get_reduction_mask_length)
  show "get_reduction_mask rep (x # xs) ! i = (True # mask_after rep x xs) ! i"
  proof (cases i)
    case 0
    then show ?thesis using get_reduction_mask_nth[OF i, of rep] by simp
  next
    case (Suc k)
    with i have "k < length xs" by simp
    then show ?thesis using get_reduction_mask_nth[OF i, of rep] Suc
      by (simp add: mask_after_nth)
  qed
qed

lemma get_reduction_mask_Nil: "get_reduction_mask rep [] = []"
  by (simp add: get_reduction_mask_def)

lemma merge_loop_runs:
  "merge_loop mw (acc @ [cur]) (zip ys (mask_after rep l ys))
     = Inr (acc @ merged_runs rep mw l cur ys)"
proof (induction ys arbitrary: acc cur l)
  case Nil
  then show ?case by simp
next
  case (Cons y ys)
  show ?case
  proof (cases "rep y l")
    case True
    then show ?thesis using Cons.IH[of acc "mw cur y" y] by simp
  next
    case False
    then show ?thesis using Cons.IH[of "acc @ [cur]" y y] by simp
  qed
qed

lemma remove_repeated_Nil: "remove_repeated rep mw [] = Inr []"
  by (simp add: remove_repeated_def get_reduction_mask_Nil)

lemma remove_repeated_Cons:
  "remove_repeated rep mw (x # xs) = Inr (merged_runs rep mw x x xs)"
  using merge_loop_runs[of mw "[]" x xs rep x]
  by (simp add: remove_repeated_def get_reduction_mask_Cons)

lemma merged_runs_props:
  assumes l1: "\<forall>a b x. rep b a \<longrightarrow> rep x (mw a b) = rep x b"
      and l2: "\<forall>a b p. rep b a \<longrightarrow> rep (mw a b) p = rep a p"
  shows "\<forall>x. rep x cur = rep x l \<Longrightarrow>
         \<exists>h t. merged_runs rep mw l cur ys = h # t \<and> (\<forall>p. rep h p = rep cur p) \<and>
               no_adjacent_repeat rep (h # t)"
proof (induction ys arbitrary: l cur)
  case Nil
  then show ?case by simp
next
  case (Cons y ys)
  show ?case
  proof (cases "rep y l")
    case True
    then have yc: "rep y cur" using Cons.prems by simp
    have "\<forall>x. rep x (mw cur y) = rep x y" using l1 yc by simp
    from Cons.IH[OF this] obtain h t where
      ht: "merged_runs rep mw y (mw cur y) ys = h # t" "\<forall>p. rep h p = rep (mw cur y) p"
          "no_adjacent_repeat rep (h # t)" by blast
    have "\<forall>p. rep h p = rep cur p" using ht(2) l2 yc by simp
    with ht True show ?thesis by simp
  next
    case False
    from Cons.IH[of y y] obtain h t where
      ht: "merged_runs rep mw y y ys = h # t" "\<forall>p. rep h p = rep y p"
          "no_adjacent_repeat rep (h # t)" by blast
    have "\<not> rep h cur" using ht(2) False Cons.prems by simp
    with ht False show ?thesis by simp
  qed
qed

lemma merged_runs_fixed:
  "no_adjacent_repeat rep (l # ys) \<Longrightarrow> merged_runs rep mw l l ys = l # ys"
  by (induction ys arbitrary: l) auto

lemma no_adjacent_repeat_nth:
  "no_adjacent_repeat rep zs \<longleftrightarrow> (\<forall>i. i + 1 < length zs \<longrightarrow> \<not> rep (zs ! (i + 1)) (zs ! i))"
proof (induction rep zs rule: no_adjacent_repeat.induct)
  case (3 rep a b zs)
  show ?case
  proof
    assume h: "no_adjacent_repeat rep (a # b # zs)"
    show "\<forall>i. i + 1 < length (a # b # zs) \<longrightarrow> \<not> rep ((a # b # zs) ! (i + 1)) ((a # b # zs) ! i)"
    proof (intro allI impI)
      fix i assume i: "i + 1 < length (a # b # zs)"
      show "\<not> rep ((a # b # zs) ! (i + 1)) ((a # b # zs) ! i)"
      proof (cases i)
        case 0
        with h show ?thesis by simp
      next
        case (Suc k)
        with i h 3 show ?thesis by simp
      qed
    qed
  next
    assume h: "\<forall>i. i + 1 < length (a # b # zs) \<longrightarrow> \<not> rep ((a # b # zs) ! (i + 1)) ((a # b # zs) ! i)"
    then have "\<not> rep b a" by force
    moreover have "\<forall>i. i + 1 < length (b # zs) \<longrightarrow> \<not> rep ((b # zs) ! (i + 1)) ((b # zs) ! i)"
    proof (intro allI impI)
      fix i assume "i + 1 < length (b # zs)"
      then have "Suc i + 1 < length (a # b # zs)" by simp
      with h have "\<not> rep ((a # b # zs) ! (Suc i + 1)) ((a # b # zs) ! Suc i)" by blast
      then show "\<not> rep ((b # zs) ! (i + 1)) ((b # zs) ! i)" by simp
    qed
    ultimately show "no_adjacent_repeat rep (a # b # zs)" using 3 by simp
  qed
qed auto


lemma chord_merge_laws:
  "(\<forall>a b x. is_repeated u b a \<longrightarrow> is_repeated u x (merge_with a b) = is_repeated u x b) \<and>
   (\<forall>a b p. is_repeated u b a \<longrightarrow> is_repeated u (merge_with a b) p = is_repeated u a p)"
  by (auto simp: is_repeated_def merge_with_def)

text \<open>
  Indexing by the mask, as is done for the keys, is the merging loop with a merge that
  keeps the earlier element as it is.
\<close>

lemma mask_select_runs:
  "cur # mask_select ys (mask_after rep l ys) = merged_runs rep (\<lambda>a b. a) l cur ys"
  by (induction ys arbitrary: l cur) (auto simp: mask_select_def)

lemma mask_select_reduction_mask:
  "remove_repeated rep (\<lambda>a b. a) xs = Inr (mask_select xs (get_reduction_mask rep xs))"
proof (cases xs)
  case Nil
  then show ?thesis by (simp add: remove_repeated_Nil get_reduction_mask_Nil mask_select_def)
next
  case (Cons x xs')
  have "mask_select (x # xs') (True # mask_after rep x xs') = x # mask_select xs' (mask_after rep x xs')"
    by (simp add: mask_select_def)
  with Cons show ?thesis
    by (simp add: remove_repeated_Cons get_reduction_mask_Cons mask_select_runs)
qed

text \<open>
  Claim C1. The mask has the length of the input, keeps index 0, and drops an index
  \<open>i > 0\<close> exactly when \<open>inputs[i]\<close> repeats its neighbour \<open>inputs[i - 1]\<close> of the
  input. The merging loop raises nothing on that mask. For \<^verbatim>\<open>is_repeated\<close> and
  \<^verbatim>\<open>merge_with\<close> such that merging a chord with a repeat of it changes neither what
  repeats the result (the result is repeated by what repeats the absorbed chord) nor what
  the result repeats, no chord of the reduced sequence repeats the chord before it, and
  reducing the reduced sequence again returns it unchanged.
\<close>

theorem reduction_mask_adjacent_and_idempotent:
  assumes "\<forall>a b x. repeated b a \<longrightarrow> repeated x (merge a b) = repeated x b"
      and "\<forall>a b p. repeated b a \<longrightarrow> repeated (merge a b) p = repeated a p"
  shows "length (get_reduction_mask repeated inputs) = length inputs \<and>
         (\<forall>i < length inputs.
            get_reduction_mask repeated inputs ! i =
              (i = 0 \<or> \<not> repeated (inputs ! i) (inputs ! (i - 1)))) \<and>
         (\<exists>reduced.
            remove_repeated repeated merge inputs = Inr reduced \<and>
            (\<forall>i. i + 1 < length reduced \<longrightarrow> \<not> repeated (reduced ! (i + 1)) (reduced ! i)) \<and>
            remove_repeated repeated merge reduced = Inr reduced)"
proof (intro conjI allI impI)
  show "length (get_reduction_mask repeated inputs) = length inputs"
    by (rule get_reduction_mask_length)
next
  fix i assume "i < length inputs"
  then show "get_reduction_mask repeated inputs ! i =
               (i = 0 \<or> \<not> repeated (inputs ! i) (inputs ! (i - 1)))"
    by (rule get_reduction_mask_nth)
next
  show "\<exists>reduced.
          remove_repeated repeated merge inputs = Inr reduced \<and>
          (\<forall>i. i + 1 < length reduced \<longrightarrow> \<not> repeated (reduced ! (i + 1)) (reduced ! i)) \<and>
          remove_repeated repeated merge reduced = Inr reduced"
  proof (cases inputs)
    case Nil
    then show ?thesis by (simp add: remove_repeated_Nil)
  next
    case (Cons x xs)
    from merged_runs_props[OF assms, of x x xs] obtain h t where
      ht: "merged_runs repeated merge x x xs = h # t" "no_adjacent_repeat repeated (h # t)"
      by blast
    have 1: "remove_repeated repeated merge inputs = Inr (h # t)"
      using Cons ht(1) by (simp add: remove_repeated_Cons)
    have 2: "\<forall>i. i + 1 < length (h # t) \<longrightarrow> \<not> repeated ((h # t) ! (i + 1)) ((h # t) ! i)"
      using ht(2) no_adjacent_repeat_nth[of repeated "h # t"] by blast
    have 3: "remove_repeated repeated merge (h # t) = Inr (h # t)"
      using merged_runs_fixed[OF ht(2)] by (simp add: remove_repeated_Cons)
    from 1 2 3 show ?thesis by blast
  qed
qed

theorem reduction_mask_adjacent_and_idempotent_witness:
  "get_reduction_mask (is_repeated True)
     [chord_of 15 MAJOR 0 (0, 0) (0, 2) 2, chord_of 15 MAJOR 0 (0, 2) (0, 5) 3,
      chord_of 22 MINOR 0 (0, 5) (0, 6) 1, chord_of 15 MAJOR 0 (0, 6) (0, 7) 1]
     = [True, False, True, True] \<and>
   remove_repeated (is_repeated True) merge_with
     [chord_of 15 MAJOR 0 (0, 0) (0, 2) 2, chord_of 15 MAJOR 0 (0, 2) (0, 5) 3,
      chord_of 22 MINOR 0 (0, 5) (0, 6) 1, chord_of 15 MAJOR 0 (0, 6) (0, 7) 1]
     = Inr [chord_of 15 MAJOR 0 (0, 0) (0, 5) 5, chord_of 22 MINOR 0 (0, 5) (0, 6) 1,
            chord_of 15 MAJOR 0 (0, 6) (0, 7) 1] \<and>
   remove_repeated (is_repeated True) merge_with
     [chord_of 15 MAJOR 0 (0, 0) (0, 5) 5, chord_of 22 MINOR 0 (0, 5) (0, 6) 1,
      chord_of 15 MAJOR 0 (0, 6) (0, 7) 1]
     = Inr [chord_of 15 MAJOR 0 (0, 0) (0, 5) 5, chord_of 22 MINOR 0 (0, 5) (0, 6) 1,
            chord_of 15 MAJOR 0 (0, 6) (0, 7) 1]"
proof -
  let ?inputs = "[chord_of 15 MAJOR 0 (0, 0) (0, 2) 2, chord_of 15 MAJOR 0 (0, 2) (0, 5) 3,
      chord_of 22 MINOR 0 (0, 5) (0, 6) 1, chord_of 15 MAJOR 0 (0, 6) (0, 7) 1]"
  let ?reduced = "[chord_of 15 MAJOR 0 (0, 0) (0, 5) 5, chord_of 22 MINOR 0 (0, 5) (0, 6) 1,
            chord_of 15 MAJOR 0 (0, 6) (0, 7) 1]"
  have m: "get_reduction_mask (is_repeated True) ?inputs = [True, False, True, True]"
    by (simp add: get_reduction_mask_Cons is_repeated_def chord_of_def)
  have r: "remove_repeated (is_repeated True) merge_with ?inputs = Inr ?reduced"
    by (simp add: remove_repeated_Cons is_repeated_def merge_with_def chord_of_def)
  from reduction_mask_adjacent_and_idempotent
         [OF chord_merge_laws[of True, THEN conjunct1] chord_merge_laws[of True, THEN conjunct2],
          of ?inputs]
  obtain reduced where
    "remove_repeated (is_repeated True) merge_with ?inputs = Inr reduced"
    "remove_repeated (is_repeated True) merge_with reduced = Inr reduced"
    by blast
  with r have "remove_repeated (is_repeated True) merge_with ?reduced = Inr ?reduced" by simp
  with m r show ?thesis by simp
qed

section \<open>Alignment of chords and notes\<close>

lemma advance_stop:
  "\<not> (note_index + 1 < length ns \<and> n_onset (ns ! note_index) < onset) \<Longrightarrow>
   advance_note_index ns note_index onset = note_index"
  by (subst advance_note_index.simps) auto

lemma advance_step:
  "note_index + 1 < length ns \<Longrightarrow> n_onset (ns ! note_index) < onset \<Longrightarrow>
   advance_note_index ns note_index onset = advance_note_index ns (note_index + 1) onset"
  by (subst advance_note_index.simps) simp

lemma advance_props:
  "k \<le> advance_note_index ns k onset \<and>
   (k < length ns \<longrightarrow> advance_note_index ns k onset < length ns) \<and>
   (\<forall>j. k \<le> j \<and> j < advance_note_index ns k onset \<longrightarrow> n_onset (ns ! j) < onset) \<and>
   (advance_note_index ns k onset + 1 < length ns \<longrightarrow>
      \<not> n_onset (ns ! advance_note_index ns k onset) < onset)"
proof (induction ns k onset rule: advance_note_index.induct)
  case (1 ns k onset)
  show ?case
  proof (cases "k + 1 < length ns \<and> n_onset (ns ! k) < onset")
    case False
    then show ?thesis by (auto simp: advance_stop)
  next
    case True
    then have eq: "advance_note_index ns k onset = advance_note_index ns (k + 1) onset"
      by (simp add: advance_step)
    note ih = "1.IH"[OF True]
    show ?thesis unfolding eq
    proof (intro conjI allI impI)
      show "k \<le> advance_note_index ns (k + 1) onset" using ih by simp
      show "advance_note_index ns (k + 1) onset < length ns" using ih True by simp
      show "\<not> n_onset (ns ! advance_note_index ns (k + 1) onset) < onset"
        if "advance_note_index ns (k + 1) onset + 1 < length ns" using ih that by simp
      fix j assume j: "k \<le> j \<and> j < advance_note_index ns (k + 1) onset"
      show "n_onset (ns ! j) < onset"
      proof (cases "j = k")
        case True
        then show ?thesis using \<open>k + 1 < length ns \<and> n_onset (ns ! k) < onset\<close> by simp
      next
        case False
        with j have "k + 1 \<le> j \<and> j < advance_note_index ns (k + 1) onset" by simp
        with ih show ?thesis by blast
      qed
    qed
  qed
qed

lemma first_index_Some:
  "first_index P xs = Some j \<longleftrightarrow> j < length xs \<and> P (xs ! j) \<and> (\<forall>i < j. \<not> P (xs ! i))"
proof (induction xs arbitrary: j)
  case Nil
  then show ?case by simp
next
  case (Cons x xs)
  show ?case
  proof (cases "P x")
    case True
    then show ?thesis by (cases j) auto
  next
    case False
    show ?thesis
    proof (cases j)
      case 0
      with False show ?thesis by auto
    next
      case (Suc k)
      have "(\<forall>i < Suc k. \<not> P ((x # xs) ! i)) \<longleftrightarrow> (\<forall>i < k. \<not> P (xs ! i))"
        using False by (auto simp: nth_Cons' less_Suc_eq_0_disj)
      with False Suc Cons.IH[of k] show ?thesis by auto
    qed
  qed
qed

lemma first_index_None: "first_index P xs = None \<longleftrightarrow> (\<forall>x \<in> set xs. \<not> P x)"
  by (induction xs) auto

text \<open>
  One step of the alignment, from a cursor that has only earlier ns behind it: the first
  note that does not start before the chord, or the last note when there is none.
\<close>

lemma advance_first_index:
  assumes behind: "\<forall>j < k. n_onset (ns ! j) < onset"
      and k: "k < length ns \<or> (k = 0 \<and> ns = [])"
  shows "advance_note_index ns k onset =
           (case first_index (starts_at_or_after onset) ns of
              Some j \<Rightarrow> j | None \<Rightarrow> length ns - 1)"
proof -
  let ?r = "advance_note_index ns k onset"
  note p = advance_props[of k ns onset]
  have before: "\<forall>j < ?r. n_onset (ns ! j) < onset"
  proof (intro allI impI)
    fix j assume "j < ?r"
    then show "n_onset (ns ! j) < onset" using behind p by (cases "j < k") auto
  qed
  show ?thesis
  proof (cases "first_index (starts_at_or_after onset) ns")
    case None
    then have all: "\<forall>n \<in> set ns. n_onset n < onset"
      by (simp add: first_index_None starts_at_or_after_def)
    have "?r = length ns - 1"
    proof (cases "ns = []")
      case True
      with k p show ?thesis by (simp add: advance_stop)
    next
      case False
      with k have kl: "k < length ns" by auto
      then have rl: "?r < length ns" using p by simp
      have "\<not> ?r + 1 < length ns"
      proof
        assume a: "?r + 1 < length ns"
        then have "\<not> n_onset (ns ! ?r) < onset" using p by simp
        moreover have "ns ! ?r \<in> set ns" using rl by simp
        ultimately show False using all by blast
      qed
      with rl show ?thesis by simp
    qed
    with None show ?thesis by simp
  next
    case (Some j)
    then have j: "j < length ns" "\<not> n_onset (ns ! j) < onset"
      "\<forall>i < j. n_onset (ns ! i) < onset"
      by (simp_all add: first_index_Some starts_at_or_after_def)
    from j(1) k have kl: "k < length ns" by auto
    then have rl: "?r < length ns" using p by simp
    have "?r \<le> j"
    proof (rule ccontr)
      assume "\<not> ?r \<le> j"
      then have "j < ?r" by simp
      with before j(2) show False by blast
    qed
    moreover have "j \<le> ?r"
    proof (rule ccontr)
      assume "\<not> j \<le> ?r"
      then have lt: "?r < j" by simp
      then have "?r + 1 < length ns" using j(1) by simp
      then have "\<not> n_onset (ns ! ?r) < onset" using p by simp
      with j(3) lt show False by blast
    qed
    ultimately show ?thesis using Some by simp
  qed
qed

lemma chord_changes_loop_length: "length (chord_changes_loop ns k chords) = length chords"
  by (induction chords arbitrary: k) (auto simp: Let_def)

lemma chord_changes_loop_ge: "\<forall>c \<in> set (chord_changes_loop ns k chords). k \<le> c"
proof (induction chords arbitrary: k)
  case Nil
  then show ?case by simp
next
  case (Cons chord chords)
  have "k \<le> advance_note_index ns k (c_onset chord)" using advance_props[of k ns] by simp
  with Cons[of "advance_note_index ns k (c_onset chord)"] show ?case
    by (auto simp: Let_def)
qed

lemma chord_changes_loop_sorted: "sorted (chord_changes_loop ns k chords)"
  by (induction chords arbitrary: k) (auto simp: Let_def chord_changes_loop_ge)

lemma chord_changes_loop_bound:
  "k < length ns \<Longrightarrow> \<forall>c \<in> set (chord_changes_loop ns k chords). c < length ns"
proof (induction chords arbitrary: k)
  case Nil
  then show ?case by simp
next
  case (Cons chord chords)
  have "advance_note_index ns k (c_onset chord) < length ns"
    using advance_props[of k ns] Cons.prems by simp
  with Cons.IH[OF this] show ?case by (auto simp: Let_def)
qed

lemma chord_changes_loop_first_index:
  assumes "sorted (map c_onset chords)"
      and "\<forall>j < k. \<forall>c \<in> set chords. n_onset (ns ! j) < c_onset c"
      and "k < length ns \<or> (k = 0 \<and> ns = [])"
      and "i < length chords"
  shows "chord_changes_loop ns k chords ! i =
           (case first_index (starts_at_or_after (c_onset (chords ! i))) ns of
              Some j \<Rightarrow> j | None \<Rightarrow> length ns - 1)"
  using assms
proof (induction chords arbitrary: k i)
  case Nil
  then show ?case by simp
next
  case (Cons chord chords)
  let ?k' = "advance_note_index ns k (c_onset chord)"
  have behind: "\<forall>j < k. n_onset (ns ! j) < c_onset chord" using Cons.prems(2) by simp
  have first: "?k' = (case first_index (starts_at_or_after (c_onset chord)) ns of
              Some j \<Rightarrow> j | None \<Rightarrow> length ns - 1)"
    by (rule advance_first_index[OF behind Cons.prems(3)])
  show ?case
  proof (cases i)
    case 0
    with first show ?thesis by (simp add: Let_def)
  next
    case (Suc i')
    note p = advance_props[of k ns "c_onset chord"]
    have srt: "sorted (map c_onset chords)" using Cons.prems(1) by simp
    have le: "\<forall>c \<in> set chords. c_onset chord \<le> c_onset c" using Cons.prems(1) by simp
    have behind': "\<forall>j < ?k'. \<forall>c \<in> set chords. n_onset (ns ! j) < c_onset c"
    proof (intro allI impI ballI)
      fix j c assume j: "j < ?k'" and c: "c \<in> set chords"
      have "n_onset (ns ! j) < c_onset chord"
        using j behind p by (cases "j < k") auto
      with le c show "n_onset (ns ! j) < c_onset c" by force
    qed
    have k': "?k' < length ns \<or> (?k' = 0 \<and> ns = [])"
      using Cons.prems(3) p by (auto simp: advance_stop)
    have "i' < length chords" using Cons.prems(4) Suc by simp
    from Cons.IH[OF srt behind' k' this] Suc show ?thesis by (simp add: Let_def)
  qed
qed

lemma range_start_from_first_index:
  "range_start_from onset k ns =
     k + (case first_index (sounds_at_or_after onset) ns of
            Some j \<Rightarrow> j | None \<Rightarrow> length ns)"
  by (induction ns arbitrary: k) (auto simp: sounds_at_or_after_def split: option.splits)

lemma get_range_start_first_index:
  "get_range_start onset ns =
     (case first_index (sounds_at_or_after onset) ns of
        Some j \<Rightarrow> j | None \<Rightarrow> length ns)"
  by (simp add: get_range_start_def range_start_from_first_index)

lemma chord_ranges_of_nth:
  assumes "length chord_changes = length chords" and "i < length chords"
  shows "chord_ranges_of ns chords chord_changes ! i =
           (get_range_start (c_onset (chords ! i)) ns,
            if i + 1 < length chords then chord_changes ! (i + 1) else length ns)"
proof -
  have len: "length (tl chord_changes @ [length ns]) = length chords"
    using assms by (cases chord_changes) auto
  have "(tl chord_changes @ [length ns]) ! i =
          (if i + 1 < length chords then chord_changes ! (i + 1) else length ns)"
    using assms by (auto simp: nth_append nth_tl)
  then show ?thesis using assms len by (simp add: chord_ranges_of_def)
qed

section \<open>The piece built from the data frames\<close>

lemma merged_runs_length:
  "length (merged_runs rep mw l cur ys) = Suc (length (filter id (mask_after rep l ys)))"
  by (induction ys arbitrary: l cur) auto

lemma mask_select_length:
  "length xs = length msk \<Longrightarrow> length (mask_select xs msk) = length (filter id msk)"
  unfolding mask_select_def by (induction xs msk rule: list_induct2) auto

lemma remove_repeated_length:
  assumes "remove_repeated rep mw xs = Inr zs"
  shows "length zs = length (filter id (get_reduction_mask rep xs))"
proof (cases xs)
  case Nil
  with assms show ?thesis by (simp add: remove_repeated_Nil get_reduction_mask_Nil)
next
  case (Cons x xs')
  with assms show ?thesis
    by (auto simp: remove_repeated_Cons get_reduction_mask_Cons merged_runs_length)
qed

lemma mask_select_subseq:
  "sorted_wrt R xs \<Longrightarrow> sorted_wrt R (mask_select xs msk) \<and> set (mask_select xs msk) \<subseteq> set xs"
proof (induction xs arbitrary: msk)
  case Nil
  then show ?case by (simp add: mask_select_def)
next
  case (Cons x xs)
  show ?case
  proof (cases msk)
    case Nil
    then show ?thesis by (simp add: mask_select_def)
  next
    case (Cons b bs)
    have eq: "mask_select (x # xs) (b # bs) = (if b then [x] else []) @ mask_select xs bs"
      by (simp add: mask_select_def)
    from Cons.prems have "sorted_wrt R xs" and x: "\<forall>y \<in> set xs. R x y" by simp_all
    with Cons.IH[of bs] have ih: "sorted_wrt R (mask_select xs bs)"
      "set (mask_select xs bs) \<subseteq> set xs" by simp_all
    with x show ?thesis unfolding Cons eq by auto
  qed
qed

lemma key_change_rows_props:
  "sorted_wrt (<) (key_change_rows key_cols) \<and>
   (\<forall>k \<in> set (key_change_rows key_cols). k < length key_cols)"
  by (auto simp: key_change_rows_def intro: sorted_wrt_filter)

text \<open>What a successfully built piece holds.\<close>

lemma score_piece_components:
  assumes "get_score_piece_from_data_frames methods notes_df chords_df mdf reduction
             use_inversions use_relative name = Inr piece"
  shows "sp_chord_changes piece = chord_changes_loop (sp_notes piece) 0 (sp_chords piece)"
    and "sp_chord_ranges piece =
           chord_ranges_of (sp_notes piece) (sp_chords piece) (sp_chord_changes piece)"
    and "\<exists>key_cols key_mask.
           length key_cols = length (sp_chords piece) \<and>
           sp_key_changes piece = mask_select (key_change_rows key_cols) key_mask"
proof -
  let ?rows = "List.map_filter
              (\<lambda>(chord_id, row).
                 map_option (\<lambda>chord. (chord, chord_id))
                   (chord_from_series methods reduction use_inversions use_relative row))
              (enumerate 0 chords_df)"
  let ?mask = "get_reduction_mask (chord_is_repeated methods use_inversions) (map fst ?rows)"
  from assms obtain chords where
    m: "merge_loop (chord_merge_with methods) [] (zip (map fst ?rows) ?mask) = Inr chords"
    by (auto simp: get_score_piece_from_data_frames_def Let_def split: if_splits sum.splits)
  let ?kc = "map (\<lambda>i. key_cols_of (chords_df ! i)) (mask_select (map snd ?rows) ?mask)"
  from assms m have c: "sp_chords piece = chords"
    and cc: "sp_chord_changes piece = chord_changes_loop (sp_notes piece) 0 chords"
    and cr: "sp_chord_ranges piece = chord_ranges_of (sp_notes piece) chords (sp_chord_changes piece)"
    and "\<exists>key_mask. sp_key_changes piece = mask_select (key_change_rows ?kc) key_mask"
    by (auto simp: get_score_piece_from_data_frames_def Let_def split: if_splits sum.splits)
  then obtain key_mask where km: "sp_key_changes piece = mask_select (key_change_rows ?kc) key_mask"
    by blast
  from cc c show "sp_chord_changes piece = chord_changes_loop (sp_notes piece) 0 (sp_chords piece)"
    by simp
  from cr c show "sp_chord_ranges piece =
           chord_ranges_of (sp_notes piece) (sp_chords piece) (sp_chord_changes piece)" by simp
  have "length chords = length (filter id ?mask)"
    using m remove_repeated_length[of "chord_is_repeated methods use_inversions"
        "chord_merge_with methods" "map fst ?rows" chords]
    by (simp add: remove_repeated_def)
  moreover have "length (mask_select (map snd ?rows) ?mask) = length (filter id ?mask)"
    by (rule mask_select_length) (simp add: get_reduction_mask_length)
  ultimately have "length ?kc = length (sp_chords piece)" using c by simp
  with km show "\<exists>key_cols key_mask.
           length key_cols = length (sp_chords piece) \<and>
           sp_key_changes piece = mask_select (key_change_rows key_cols) key_mask" by blast
qed


text \<open>
  Claim C2, as amended. For a piece the function builds and whose chords are in onset
  order, \<^verbatim>\<open>chord_changes[i]\<close> is the index of the first note whose onset is not earlier
  than the onset of chord \<open>i\<close> when there is such a note, and the index of the last note
  when every note starts earlier (the cursor stops at \<^verbatim>\<open>len(notes) - 1\<close>); the cursor
  never rewinds. \<^verbatim>\<open>chord_ranges[i]\<close> starts at \<^verbatim>\<open>get_range_start\<close>, the first note
  that starts at or after the chord's onset or ends after it (\<^verbatim>\<open>len(notes)\<close> when
  there is none), and ends at \<^verbatim>\<open>chord_changes[i + 1]\<close>, or at \<^verbatim>\<open>len(notes)\<close> for
  the last chord.
\<close>

theorem chord_changes_and_ranges:
  assumes "get_score_piece_from_data_frames methods notes_df chords_df mdf reduction
             use_inversions use_relative name = Inr piece"
      and "sorted (map c_onset (sp_chords piece))"
      and "i < length (sp_chords piece)"
  shows "length (sp_chord_changes piece) = length (sp_chords piece) \<and>
         length (sp_chord_ranges piece) = length (sp_chords piece) \<and>
         sorted (sp_chord_changes piece) \<and>
         sp_chord_changes piece ! i =
           (case first_index (starts_at_or_after (c_onset (sp_chords piece ! i))) (sp_notes piece) of
              Some j \<Rightarrow> j | None \<Rightarrow> length (sp_notes piece) - 1) \<and>
         sp_chord_ranges piece ! i =
           (get_range_start (c_onset (sp_chords piece ! i)) (sp_notes piece),
            if i + 1 < length (sp_chords piece) then sp_chord_changes piece ! (i + 1)
            else length (sp_notes piece)) \<and>
         get_range_start (c_onset (sp_chords piece ! i)) (sp_notes piece) =
           (case first_index (sounds_at_or_after (c_onset (sp_chords piece ! i))) (sp_notes piece) of
              Some j \<Rightarrow> j | None \<Rightarrow> length (sp_notes piece))"
proof -
  note c = score_piece_components[OF assms(1)]
  have notes1: "length (sp_notes piece) \<noteq> 1"
    using assms(1)
    by (auto simp: get_score_piece_from_data_frames_def Let_def split: if_splits sum.splits)
  have len: "length (sp_chord_changes piece) = length (sp_chords piece)"
    by (simp add: c(1) chord_changes_loop_length)
  have start: "0 < length (sp_notes piece) \<or> ((0::nat) = 0 \<and> sp_notes piece = [])" by auto
  have 1: "sp_chord_changes piece ! i =
           (case first_index (starts_at_or_after (c_onset (sp_chords piece ! i))) (sp_notes piece) of
              Some j \<Rightarrow> j | None \<Rightarrow> length (sp_notes piece) - 1)"
    unfolding c(1) by (rule chord_changes_loop_first_index[OF assms(2) _ start assms(3)]) simp
  have 2: "sp_chord_ranges piece ! i =
           (get_range_start (c_onset (sp_chords piece ! i)) (sp_notes piece),
            if i + 1 < length (sp_chords piece) then sp_chord_changes piece ! (i + 1)
            else length (sp_notes piece))"
    unfolding c(2) by (rule chord_ranges_of_nth[OF len assms(3)])
  have 3: "length (sp_chord_ranges piece) = length (sp_chords piece)"
    using len by (cases "sp_chord_changes piece") (auto simp: c(2) chord_ranges_of_def)
  have 4: "sorted (sp_chord_changes piece)" by (simp add: c(1) chord_changes_loop_sorted)
  from len 1 2 3 4 show ?thesis by (simp add: get_range_start_first_index)
qed

lemmas piece_eval =
  get_score_piece_from_data_frames_def Let_def List.map_filter_def example_methods_def
  chord_row_of_def chord_of_def note_span_def enumerate_eq_zip
  get_reduction_mask_Cons get_reduction_mask_Nil is_repeated_def merge_with_def mask_select_def
  advance_stop advance_step chord_ranges_of_def get_range_start_def key_cols_of_def
  key_change_rows_def fillna_def example_key_def upt_rec[of _ "numeral _"] upt_rec[of _ "Suc _"]

theorem chord_changes_and_ranges_witness:
  "map_sum id sp_chord_changes
     (get_score_piece_from_data_frames example_methods
        [Some (note_span (0, 0) (2, 0)), Some (note_span (1, 0) (2, 0)),
         Some (note_span (2, 0) (3, 0))]
        [chord_row_of (chord_of 15 MAJOR 0 (0, 0) (1, 0) 1),
         chord_row_of (chord_of 22 MINOR 0 (1, 0) (3, 0) 2)]
        () () True True None) = Inr [0, 1] \<and>
   map_sum id sp_chord_ranges
     (get_score_piece_from_data_frames example_methods
        [Some (note_span (0, 0) (2, 0)), Some (note_span (1, 0) (2, 0)),
         Some (note_span (2, 0) (3, 0))]
        [chord_row_of (chord_of 15 MAJOR 0 (0, 0) (1, 0) 1),
         chord_row_of (chord_of 22 MINOR 0 (1, 0) (3, 0) 2)]
        () () True True None) = Inr [(0, 1), (0, 3)] \<and>
   first_index (starts_at_or_after (1, 0))
     [note_span (0, 0) (2, 0), note_span (1, 0) (2, 0), note_span (2, 0) (3, 0)] = Some 1 \<and>
   first_index (sounds_at_or_after (1, 0))
     [note_span (0, 0) (2, 0), note_span (1, 0) (2, 0), note_span (2, 0) (3, 0)] = Some 0"
proof -
  let ?ns = "[note_span (0, 0) (2, 0), note_span (1, 0) (2, 0), note_span (2, 0) (3, 0)]"
  let ?cs = "[chord_of 15 MAJOR 0 (0, 0) (1, 0) 1, chord_of 22 MINOR 0 (1, 0) (3, 0) 2]"
  define piece where "piece = \<lparr>measures_df = (), sp_notes = ?ns, sp_chords = ?cs,
      sp_keys = [example_key],
      sp_chord_changes = [0, 1], sp_chord_ranges = [(0, 1), (0, 3)], sp_key_changes = [0],
      sp_name = None, sp_duration_cache = None\<rparr>"
  have built: "get_score_piece_from_data_frames example_methods
        [Some (note_span (0, 0) (2, 0)), Some (note_span (1, 0) (2, 0)),
         Some (note_span (2, 0) (3, 0))]
        [chord_row_of (chord_of 15 MAJOR 0 (0, 0) (1, 0) 1),
         chord_row_of (chord_of 22 MINOR 0 (1, 0) (3, 0) 2)]
        () () True True None = Inr piece"
    unfolding piece_def by (simp add: piece_eval)
  have f: "sp_chords piece = ?cs" "sp_notes piece = ?ns" "sp_chord_changes piece = [0, 1]"
    "sp_chord_ranges piece = [(0, 1), (0, 3)]"
    by (simp_all add: piece_def)
  have srt: "sorted (map c_onset (sp_chords piece))" by (simp add: f chord_of_def)
  have i: "1 < length (sp_chords piece)" by (simp add: f)
  have o: "c_onset (?cs ! 1) = (1, 0)" by (simp add: chord_of_def)
  note t = chord_changes_and_ranges[OF built srt i]
  have "sp_chord_changes piece ! 1 =
           (case first_index (starts_at_or_after (c_onset (sp_chords piece ! 1))) (sp_notes piece) of
              Some j \<Rightarrow> j | None \<Rightarrow> length (sp_notes piece) - 1)"
    using t by blast
  then have t1: "[0, 1::nat] ! 1 = (case first_index (starts_at_or_after (1, 0)) ?ns of
                     Some j \<Rightarrow> j | None \<Rightarrow> length ?ns - 1)"
    unfolding f o .
  have "sp_chord_ranges piece ! 1 =
           (get_range_start (c_onset (sp_chords piece ! 1)) (sp_notes piece),
            if 1 + 1 < length (sp_chords piece) then sp_chord_changes piece ! (1 + 1)
            else length (sp_notes piece))"
    using t by blast
  then have "[(0, 1), (0, 3::nat)] ! 1 = (get_range_start (1, 0) ?ns,
            if 1 + 1 < length ?cs then [0, 1] ! (1 + 1) else length ?ns)"
    unfolding f o .
  then have g: "get_range_start (1, 0) ?ns = 0" by simp
  have "get_range_start (c_onset (sp_chords piece ! 1)) (sp_notes piece) =
           (case first_index (sounds_at_or_after (c_onset (sp_chords piece ! 1))) (sp_notes piece) of
              Some j \<Rightarrow> j | None \<Rightarrow> length (sp_notes piece))"
    using t by blast
  then have t2: "0 = (case first_index (sounds_at_or_after (1, 0)) ?ns of
                     Some j \<Rightarrow> j | None \<Rightarrow> length ?ns)"
    unfolding f o g .
  from t1 have a: "first_index (starts_at_or_after (1, 0)) ?ns = Some 1"
    by (cases "first_index (starts_at_or_after (1, 0)) ?ns") simp_all
  from t2 have b: "first_index (sounds_at_or_after (1, 0)) ?ns = Some 0"
    by (cases "first_index (sounds_at_or_after (1, 0)) ?ns") simp_all
  from built f have "map_sum id sp_chord_changes
     (get_score_piece_from_data_frames example_methods
        [Some (note_span (0, 0) (2, 0)), Some (note_span (1, 0) (2, 0)),
         Some (note_span (2, 0) (3, 0))]
        [chord_row_of (chord_of 15 MAJOR 0 (0, 0) (1, 0) 1),
         chord_row_of (chord_of 22 MINOR 0 (1, 0) (3, 0) 2)]
        () () True True None) = Inr [0, 1]" by simp
  moreover from built f have "map_sum id sp_chord_ranges
     (get_score_piece_from_data_frames example_methods
        [Some (note_span (0, 0) (2, 0)), Some (note_span (1, 0) (2, 0)),
         Some (note_span (2, 0) (3, 0))]
        [chord_row_of (chord_of 15 MAJOR 0 (0, 0) (1, 0) 1),
         chord_row_of (chord_of 22 MINOR 0 (1, 0) (3, 0) 2)]
        () () True True None) = Inr [(0, 1), (0, 3)]" by simp
  ultimately show ?thesis using a b by blast
qed


text \<open>
  The claim as written fails where a chord starts after the last note has started: the
  second chord starts at \<open>(2, 0)\<close>, no note starts at or after it, and its entry of
  \<^verbatim>\<open>chord_changes\<close> is the index of the last note, which starts earlier.
\<close>

theorem chord_changes_after_last_onset:
  "map_sum id sp_chord_changes
     (get_score_piece_from_data_frames example_methods
        [Some (note_span (0, 0) (1, 0)), Some (note_span (1, 0) (3, 0))]
        [chord_row_of (chord_of 15 MAJOR 0 (0, 0) (2, 0) 2),
         chord_row_of (chord_of 22 MINOR 0 (2, 0) (3, 0) 1)]
        () () True True None) = Inr [0, 1] \<and>
   first_index (starts_at_or_after (2, 0))
     [note_span (0, 0) (1, 0), note_span (1, 0) (3, 0)] = None \<and>
   n_onset ([note_span (0, 0) (1, 0), note_span (1, 0) (3, 0)] ! 1) < (2, 0)"
proof (intro conjI)
  show "map_sum id sp_chord_changes
     (get_score_piece_from_data_frames example_methods
        [Some (note_span (0, 0) (1, 0)), Some (note_span (1, 0) (3, 0))]
        [chord_row_of (chord_of 15 MAJOR 0 (0, 0) (2, 0) 2),
         chord_row_of (chord_of 22 MINOR 0 (2, 0) (3, 0) 1)]
        () () True True None) = Inr [0, 1]"
    by (simp add: piece_eval)
  show "first_index (starts_at_or_after (2, 0))
     [note_span (0, 0) (1, 0), note_span (1, 0) (3, 0)] = None"
    by (simp add: note_span_def starts_at_or_after_def)
  show "n_onset ([note_span (0, 0) (1, 0), note_span (1, 0) (3, 0)] ! 1) < (2, 0)"
    by (simp add: note_span_def)
qed

lemma first_index_onset:
  assumes "sorted (map n_onset ns)" and "onset \<in> n_onset ` set ns"
  shows "\<exists>j < length ns. first_index (starts_at_or_after onset) ns = Some j \<and>
           n_onset (ns ! j) = onset"
proof -
  from assms(2) obtain m where m: "m < length ns" "n_onset (ns ! m) = onset"
    by (auto simp: in_set_conv_nth)
  then have "ns ! m \<in> set ns" "starts_at_or_after onset (ns ! m)"
    by (simp_all add: starts_at_or_after_def)
  then have "first_index (starts_at_or_after onset) ns \<noteq> None"
    unfolding first_index_None by blast
  then obtain j where j: "first_index (starts_at_or_after onset) ns = Some j" by auto
  then have jp: "j < length ns" "\<not> n_onset (ns ! j) < onset"
    "\<forall>i < j. n_onset (ns ! i) < onset"
    by (simp_all add: first_index_Some starts_at_or_after_def)
  have "j \<le> m"
  proof (rule ccontr)
    assume "\<not> j \<le> m"
    then have "m < j" by simp
    with jp(3) have "n_onset (ns ! m) < onset" by blast
    with m show False by simp
  qed
  then have "map n_onset ns ! j \<le> map n_onset ns ! m"
    using assms(1) m by (intro sorted_nth_mono) auto
  then have "n_onset (ns ! j) \<le> onset" using m jp(1) by simp
  with jp(2) have "n_onset (ns ! j) = onset" by simp
  with j jp(1) show ?thesis by blast
qed

text \<open>
  When the notes are in onset order, the chord onsets strictly increase and every chord
  starts with some note, the chord change indices strictly increase.
\<close>

lemma chord_changes_loop_strict:
  assumes ns: "sorted (map n_onset ns)"
      and cs: "sorted_wrt (<) (map c_onset chords)"
      and al: "\<forall>c \<in> set chords. c_onset c \<in> n_onset ` set ns"
  shows "sorted_wrt (<) (chord_changes_loop ns 0 chords)"
proof -
  let ?cc = "chord_changes_loop ns 0 chords"
  have srt: "sorted (map c_onset chords)" using cs by (rule strict_sorted_imp_sorted)
  have start: "0 < length ns \<or> ((0::nat) = 0 \<and> ns = [])" by auto
  have at: "n_onset (ns ! (?cc ! i)) = c_onset (chords ! i)" if i: "i < length chords" for i
  proof -
    from i al have "c_onset (chords ! i) \<in> n_onset ` set ns" by simp
    from first_index_onset[OF ns this] obtain j where
      j: "first_index (starts_at_or_after (c_onset (chords ! i))) ns = Some j"
         "n_onset (ns ! j) = c_onset (chords ! i)" by blast
    have "?cc ! i = (case first_index (starts_at_or_after (c_onset (chords ! i))) ns of
              Some j \<Rightarrow> j | None \<Rightarrow> length ns - 1)"
      by (rule chord_changes_loop_first_index[OF srt _ start i]) simp
    with j show ?thesis by simp
  qed
  have len: "length ?cc = length chords" by (rule chord_changes_loop_length)
  show ?thesis unfolding sorted_wrt_iff_nth_less
  proof (intro allI impI)
    fix i j assume ij: "i < j" "j < length ?cc"
    then have i: "i < length chords" and j: "j < length chords" using len by simp_all
    have "?cc ! i \<le> ?cc ! j"
      using chord_changes_loop_sorted[of ns 0 chords] ij
      by (intro sorted_nth_mono) auto
    moreover have "c_onset (chords ! i) < c_onset (chords ! j)"
      using cs ij i j by (simp add: sorted_wrt_iff_nth_less)
    then have "?cc ! i \<noteq> ?cc ! j" using at[OF i] at[OF j] by auto
    ultimately show "?cc ! i < ?cc ! j" by simp
  qed
qed

text \<open>
  Claim C3, as amended. For a piece the function builds, \<^verbatim>\<open>chord_changes\<close> is
  non-decreasing, and each entry is below \<^verbatim>\<open>len(notes)\<close> when there is a note; it is
  strictly increasing when the notes are in onset order, the chord onsets strictly
  increase and every chord starts with some note. \<^verbatim>\<open>key_changes\<close> is strictly
  increasing, and each entry is below \<^verbatim>\<open>len(chords)\<close>.
\<close>

theorem change_arrays_increasing:
  assumes "get_score_piece_from_data_frames methods notes_df chords_df mdf reduction
             use_inversions use_relative name = Inr piece"
  shows "sorted (sp_chord_changes piece) \<and>
         (sp_notes piece \<noteq> [] \<longrightarrow>
            (\<forall>c \<in> set (sp_chord_changes piece). c < length (sp_notes piece))) \<and>
         (sorted (map n_onset (sp_notes piece)) \<and>
          sorted_wrt (<) (map c_onset (sp_chords piece)) \<and>
          (\<forall>c \<in> set (sp_chords piece). c_onset c \<in> n_onset ` set (sp_notes piece)) \<longrightarrow>
            sorted_wrt (<) (sp_chord_changes piece)) \<and>
         sorted_wrt (<) (sp_key_changes piece) \<and>
         (\<forall>k \<in> set (sp_key_changes piece). k < length (sp_chords piece))"
proof -
  note c = score_piece_components[OF assms]
  have 1: "sorted (sp_chord_changes piece)" by (simp add: c(1) chord_changes_loop_sorted)
  have 2: "\<forall>c \<in> set (sp_chord_changes piece). c < length (sp_notes piece)"
    if "sp_notes piece \<noteq> []"
    unfolding c(1) by (rule chord_changes_loop_bound) (use that in simp)
  have 3: "sorted_wrt (<) (sp_chord_changes piece)"
    if "sorted (map n_onset (sp_notes piece)) \<and>
          sorted_wrt (<) (map c_onset (sp_chords piece)) \<and>
          (\<forall>c \<in> set (sp_chords piece). c_onset c \<in> n_onset ` set (sp_notes piece))"
    unfolding c(1) using that by (intro chord_changes_loop_strict) auto
  from c(3) obtain key_cols key_mask where
    k: "length key_cols = length (sp_chords piece)"
       "sp_key_changes piece = mask_select (key_change_rows key_cols) key_mask" by blast
  note r = key_change_rows_props[of key_cols]
  from mask_select_subseq[of "(<)" "key_change_rows key_cols" key_mask] r
  have s: "sorted_wrt (<) (sp_key_changes piece)"
    "set (sp_key_changes piece) \<subseteq> set (key_change_rows key_cols)"
    unfolding k(2) by simp_all
  have 5: "\<forall>x \<in> set (sp_key_changes piece). x < length (sp_chords piece)"
    using s(2) r k(1) by auto
  from 1 2 3 s(1) 5 show ?thesis by blast
qed

lemma example_piece_built:
  "get_score_piece_from_data_frames example_methods
     [Some (note_span (0, 0) (2, 0)), Some (note_span (1, 0) (2, 0)),
      Some (note_span (2, 0) (3, 0))]
     [chord_row_of (chord_of 15 MAJOR 0 (0, 0) (1, 0) 1),
      chord_row_of (chord_of 22 MINOR 0 (1, 0) (3, 0) 2)]
     () () True True None = Inr example_piece"
  unfolding example_piece_def by (simp add: piece_eval)

lemma example_piece_fields:
  "sp_notes example_piece =
     [note_span (0, 0) (2, 0), note_span (1, 0) (2, 0), note_span (2, 0) (3, 0)]"
  "sp_chords example_piece =
     [chord_of 15 MAJOR 0 (0, 0) (1, 0) 1, chord_of 22 MINOR 0 (1, 0) (3, 0) 2]"
  "sp_chord_changes example_piece = [0, 1]"
  "sp_chord_ranges example_piece = [(0, 1), (0, 3)]"
  "sp_key_changes example_piece = [0]"
  by (simp_all add: example_piece_def)

theorem change_arrays_increasing_witness:
  "get_score_piece_from_data_frames example_methods
     [Some (note_span (0, 0) (2, 0)), Some (note_span (1, 0) (2, 0)),
      Some (note_span (2, 0) (3, 0))]
     [chord_row_of (chord_of 15 MAJOR 0 (0, 0) (1, 0) 1),
      chord_row_of (chord_of 22 MINOR 0 (1, 0) (3, 0) 2)]
     () () True True None = Inr example_piece \<and>
   sorted_wrt (<) (sp_chord_changes example_piece) \<and>
   list_all (\<lambda>c. c < length (sp_notes example_piece)) (sp_chord_changes example_piece) \<and>
   sorted_wrt (<) (sp_key_changes example_piece) \<and>
   list_all (\<lambda>k. k < length (sp_chords example_piece)) (sp_key_changes example_piece)"
proof -
  note t = change_arrays_increasing[OF example_piece_built]
  have ne: "sp_notes example_piece \<noteq> []" by (simp add: example_piece_fields)
  have aligned: "sorted (map n_onset (sp_notes example_piece)) \<and>
          sorted_wrt (<) (map c_onset (sp_chords example_piece)) \<and>
          (\<forall>c \<in> set (sp_chords example_piece).
             c_onset c \<in> n_onset ` set (sp_notes example_piece))"
    by (simp add: example_piece_fields note_span_def chord_of_def)
  from t ne have 2: "\<forall>c \<in> set (sp_chord_changes example_piece).
      c < length (sp_notes example_piece)" by blast
  from t aligned have 3: "sorted_wrt (<) (sp_chord_changes example_piece)" by blast
  from t have 4: "sorted_wrt (<) (sp_key_changes example_piece)" by blast
  from t have 5: "\<forall>k \<in> set (sp_key_changes example_piece).
      k < length (sp_chords example_piece)" by blast
  from example_piece_built 2 3 4 5 show ?thesis by (simp add: list_all_iff)
qed

text \<open>
  The claim as written fails where a chord starts between two note onsets: the second
  chord starts at \<open>(1, 0)\<close>, while the first note is held, and the third at \<open>(2, 0)\<close>,
  with the second note; both get the index of the second note.
\<close>

theorem chord_changes_not_strictly_increasing:
  "map_sum id sp_chord_changes
     (get_score_piece_from_data_frames example_methods
        [Some (note_span (0, 0) (2, 0)), Some (note_span (2, 0) (3, 0))]
        [chord_row_of (chord_of 15 MAJOR 0 (0, 0) (1, 0) 1),
         chord_row_of (chord_of 22 MINOR 0 (1, 0) (2, 0) 1),
         chord_row_of (chord_of 15 MAJOR 0 (2, 0) (3, 0) 1)]
        () () True True None) = Inr [0, 1, 1] \<and>
   \<not> sorted_wrt (<) [0, 1, 1 :: nat]"
proof (intro conjI)
  show "map_sum id sp_chord_changes
     (get_score_piece_from_data_frames example_methods
        [Some (note_span (0, 0) (2, 0)), Some (note_span (2, 0) (3, 0))]
        [chord_row_of (chord_of 15 MAJOR 0 (0, 0) (1, 0) 1),
         chord_row_of (chord_of 22 MINOR 0 (1, 0) (2, 0) 1),
         chord_row_of (chord_of 15 MAJOR 0 (2, 0) (3, 0) 1)]
        () () True True None) = Inr [0, 1, 1]"
    by (simp add: piece_eval)
  show "\<not> sorted_wrt (<) [0, 1, 1 :: nat]" by simp
qed

section \<open>The dictionary of a piece\<close>

text \<open>
  Claim C9, as amended. The dictionary has exactly the six keys. \<^verbatim>\<open>notes\<close>,
  \<^verbatim>\<open>chords\<close> and \<^verbatim>\<open>keys\<close> hold plain lists; \<^verbatim>\<open>chord_changes\<close>,
  \<^verbatim>\<open>chord_ranges\<close> and \<^verbatim>\<open>key_changes\<close> hold the arrays the piece stores. When the
  constructors of \<^verbatim>\<open>Note\<close>, \<^verbatim>\<open>Chord\<close> and \<^verbatim>\<open>Key\<close> take the dictionaries of the
  piece's objects back to the objects, \<^verbatim>\<open>get_score_piece_from_dict\<close> returns, for the
  same measures, a piece with equal notes, chords and keys and identical
  \<^verbatim>\<open>chord_changes\<close>, \<^verbatim>\<open>chord_ranges\<close> and \<^verbatim>\<open>key_changes\<close>: the piece itself,
  but for the name given and the duration cache, which starts empty.
\<close>

theorem to_dict_round_trip:
  assumes "\<forall>n \<in> set (sp_notes piece). note_of_dict methods (note_to_dict methods n) = n"
      and "\<forall>c \<in> set (sp_chords piece). chord_of_dict methods (chord_to_dict methods c) = c"
      and "\<forall>k \<in> set (sp_keys piece). key_of_dict methods (key_to_dict methods k) = k"
  shows "map fst (to_dict methods piece) =
           [''notes'', ''chords'', ''keys'', ''chord_changes'', ''chord_ranges'', ''key_changes''] \<and>
         map (plain_list \<circ> snd) (to_dict methods piece) = [True, True, True, False, False, False] \<and>
         map_of (to_dict methods piece) ''chord_changes''
           = Some (Indices (NdArray (sp_chord_changes piece))) \<and>
         map_of (to_dict methods piece) ''chord_ranges''
           = Some (Ranges (NdArray (sp_chord_ranges piece))) \<and>
         map_of (to_dict methods piece) ''key_changes''
           = Some (Indices (NdArray (sp_key_changes piece))) \<and>
         get_score_piece_from_dict methods (measures_df piece) (to_dict methods piece) name
           = Inr (piece\<lparr>sp_name := name, sp_duration_cache := None\<rparr>)"
proof -
  have n: "map (note_of_dict methods) (map (note_to_dict methods) (sp_notes piece)) = sp_notes piece"
    using assms(1) by (simp add: map_idI)
  have c: "map (chord_of_dict methods) (map (chord_to_dict methods) (sp_chords piece)) = sp_chords piece"
    using assms(2) by (simp add: map_idI)
  have k: "map (key_of_dict methods) (map (key_to_dict methods) (sp_keys piece)) = sp_keys piece"
    using assms(3) by (simp add: map_idI)
  have rt: "get_score_piece_from_dict methods (measures_df piece) (to_dict methods piece) name
           = Inr (piece\<lparr>sp_name := name, sp_duration_cache := None\<rparr>)"
    unfolding get_score_piece_from_dict_def to_dict_def
    using n c k by simp
  have keys: "map fst (to_dict methods piece) =
           [''notes'', ''chords'', ''keys'', ''chord_changes'', ''chord_ranges'', ''key_changes'']"
    by (simp add: to_dict_def)
  have pl: "map (plain_list \<circ> snd) (to_dict methods piece) = [True, True, True, False, False, False]"
    by (simp add: to_dict_def)
  have v: "map_of (to_dict methods piece) ''chord_changes''
           = Some (Indices (NdArray (sp_chord_changes piece)))"
    "map_of (to_dict methods piece) ''chord_ranges''
           = Some (Ranges (NdArray (sp_chord_ranges piece)))"
    "map_of (to_dict methods piece) ''key_changes''
           = Some (Indices (NdArray (sp_key_changes piece)))"
    by (simp_all add: to_dict_def)
  from keys pl v rt show ?thesis by blast
qed

theorem to_dict_round_trip_witness:
  "map fst (to_dict example_dict_methods example_piece) =
     [''notes'', ''chords'', ''keys'', ''chord_changes'', ''chord_ranges'', ''key_changes''] \<and>
   get_score_piece_from_dict example_dict_methods () (to_dict example_dict_methods example_piece)
     None = Inr example_piece"
proof -
  have 1: "\<forall>n \<in> set (sp_notes example_piece).
             note_of_dict example_dict_methods (note_to_dict example_dict_methods n) = n"
    by (simp add: example_dict_methods_def)
  have 2: "\<forall>c \<in> set (sp_chords example_piece).
             chord_of_dict example_dict_methods (chord_to_dict example_dict_methods c) = c"
    by (simp add: example_dict_methods_def)
  have 3: "\<forall>k \<in> set (sp_keys example_piece).
             key_of_dict example_dict_methods (key_to_dict example_dict_methods k) = k"
    by (simp add: example_dict_methods_def)
  have same: "example_piece\<lparr>sp_name := None, sp_duration_cache := None\<rparr> = example_piece"
    by (simp add: example_piece_def)
  have m: "measures_df example_piece = ()" by simp
  from to_dict_round_trip[OF 1 2 3, of None] show ?thesis unfolding same m by blast
qed

text \<open>
  The claim as written fails on the kind of three values: under \<^verbatim>\<open>chord_changes\<close> the
  dictionary holds the array of the piece, not a plain list.
\<close>

theorem to_dict_chord_changes_is_array:
  "map_of (to_dict example_dict_methods example_piece) ''chord_changes''
     = Some (Indices (NdArray [0, 1])) \<and>
   \<not> plain_list (Indices (NdArray [0, 1]) :: (Note, Chord, Key) dict_value)"
  by (simp add: to_dict_def example_piece_def)

section \<open>The windowed note input\<close>

lemma py_slice_in_range:
  "0 \<le> i \<Longrightarrow> i \<le> j \<Longrightarrow> j \<le> int (length xs) \<Longrightarrow>
   py_slice xs i j = take (nat (j - i)) (drop (nat i) xs)"
  by (simp add: py_slice_def py_bound_def Let_def nat_diff_distrib min_def)

lemma length_py_slice_in_range:
  "0 \<le> i \<Longrightarrow> i \<le> j \<Longrightarrow> j \<le> int (length xs) \<Longrightarrow> length (py_slice xs i j) = nat (j - i)"
  by (simp add: py_slice_in_range)

lemma py_slice_nth:
  "0 \<le> i \<Longrightarrow> i \<le> j \<Longrightarrow> j \<le> int (length xs) \<Longrightarrow> k < nat (j - i) \<Longrightarrow>
   py_slice xs i j ! k = xs ! (nat i + k)"
  by (simp add: py_slice_in_range)

lemma window_vectors_length:
  "length (window_vectors to_vec mdf on off d mn mx chord_notes note_onsets from_prevs to_nexts)
     = min (length chord_notes) (min (length note_onsets) (min (length from_prevs) (length to_nexts)))"
  by (simp add: window_vectors_def)

lemma window_vectors_nth:
  assumes "k < length (window_vectors to_vec mdf on off d mn mx chord_notes note_onsets from_prevs to_nexts)"
  shows "window_vectors to_vec mdf on off d mn mx chord_notes note_onsets from_prevs to_nexts ! k
           = to_vec (chord_notes ! k)
               \<lparr>kw_chord_onset = on, kw_chord_offset = off, kw_chord_duration = d,
                kw_measures_df = mdf, kw_min_pitch = mn, kw_max_pitch = mx,
                kw_note_onset = note_onsets ! k, kw_dur_from_prev = from_prevs ! k,
                kw_dur_to_next = to_nexts ! k\<rparr>"
  using assms by (simp add: window_vectors_def)

lemma py_min_nonempty: "xs \<noteq> [] \<Longrightarrow> \<exists>m. py_min xs = Inr m"
  by (cases xs) auto

lemma py_max_nonempty: "xs \<noteq> [] \<Longrightarrow> \<exists>m. py_max xs = Inr m"
  by (cases xs) auto

lemma np_vstack_fixed:
  "vs \<noteq> [] \<Longrightarrow> \<forall>v \<in> set vs. length v = d \<Longrightarrow> np_vstack vs = Inr vs \<and> length (hd vs) = d"
  by (cases vs) (auto simp: np_vstack_def)

lemma assign_rows_padding:
  assumes "0 \<le> a" "0 \<le> c" "length rows = k"
  shows "assign_rows (replicate (nat a + k + nat c) z) a (a + int k) rows
           = Inr (replicate (nat a) z @ rows @ replicate (nat c) z)"
proof -
  have 1: "py_bound (nat a + k + nat c) a = nat a" using assms by (simp add: py_bound_def)
  have 2: "py_bound (nat a + k + nat c) (a + int k) = nat a + k"
    using assms by (simp add: py_bound_def nat_add_distrib)
  show ?thesis using assms(3) by (simp add: assign_rows_def 1 2 Let_def)
qed


text \<open>
  Claim C4, as amended. When the window \<^verbatim>\<open>[onset_index - window, offset_index + window)\<close>,
  clipped to the notes, holds a note, the cache has one entry per note and the note vectors
  have one length \<open>d\<close>, the function returns
  \<^verbatim>\<open>offset_index - onset_index + 2 * window\<close> rows: a zero row for every window
  position before the first note, the vectors of the notes in the window, each once and in
  order, and a zero row for every window position after the last note. On ten notes and
  the range \<open>[3, 7)\<close> that is four vectors for window 0, and fourteen rows for window 5,
  of which rows \<open>[0, 2)\<close> and \<open>[12, 14)\<close> are zero.
\<close>

theorem chord_note_input_window:
  assumes some: "max (onset_index - window) 0 < min (offset_index + window) (int (length notes))"
      and cache: "length dc = length notes"
      and fixed: "\<forall>note kw. length (to_vec note kw) = d"
  shows "\<exists>vectors.
           get_chord_note_input to_vec get_midi_note_number notes mdf chord_onset chord_offset
             chord_duration change_index onset_index offset_index window (Some dc) chord
           = Inr (replicate (nat (max (onset_index - window) 0 - (onset_index - window)))
                    (replicate d 0)
                  @ vectors
                  @ replicate (nat (offset_index + window
                                    - min (offset_index + window) (int (length notes))))
                      (replicate d 0)) \<and>
           length vectors
             = nat (min (offset_index + window) (int (length notes))
                    - max (onset_index - window) 0) \<and>
           (\<forall>k < length vectors.
              \<exists>kw. vectors ! k = to_vec (notes ! (nat (max (onset_index - window) 0) + k)) kw) \<and>
           nat (max (onset_index - window) 0 - (onset_index - window)) + length vectors
             + nat (offset_index + window - min (offset_index + window) (int (length notes)))
             = nat (offset_index - onset_index + 2 * window)"
proof -
  define first_note_index where "first_note_index = max (onset_index - window) 0"
  define last_note_index where
    "last_note_index = min (offset_index + window) (int (length notes))"
  note some = some[folded first_note_index_def last_note_index_def]
  let ?wo = "onset_index - window" and ?woff = "offset_index + window"
  let ?f = first_note_index and ?l = last_note_index
  let ?n = "nat (?l - ?f)"
  have f0: "0 \<le> ?f" and fw: "?wo \<le> ?f" by (simp_all add: first_note_index_def)
  have ll: "?l \<le> int (length notes)" and lw: "?l \<le> ?woff"
    by (simp_all add: last_note_index_def)
  have fl: "?f \<le> ?l" using some by simp
  have npos: "0 < ?n" using some by simp
  let ?chord_notes = "py_slice notes ?f ?l"
  have cn_len: "length ?chord_notes = ?n" by (rule length_py_slice_in_range[OF f0 fl ll])
  have cn_nth: "?chord_notes ! k = notes ! (nat ?f + k)" if "k < ?n" for k
    by (rule py_slice_nth[OF f0 fl ll that])
  let ?pitch_list = "map (\<lambda>note. (n_octave note, get_midi_note_number note)) ?chord_notes"
  have "?pitch_list \<noteq> []" using cn_len npos by auto
  then obtain min_pitch max_pitch where
    mn: "py_min ?pitch_list = Inr min_pitch" and mx: "py_max ?pitch_list = Inr max_pitch"
    using py_min_nonempty py_max_nonempty by blast
  let ?aligns = "case chord of None \<Rightarrow> True | Some c \<Rightarrow> c_onset c = chord_onset"
  let ?note_onsets = "if \<not> ?aligns then replicate (length ?chord_notes) None
       else map (\<lambda>note_index. Some (note_onset_of dc change_index note_index)) [?f..?l - 1]"
  have no_len: "length ?note_onsets = ?n" using cn_len fl by simp
  let ?fp = "py_slice (None # map Some dc) ?f ?l" and ?tn = "py_slice (map Some dc) ?f ?l"
  have fp_len: "length ?fp = ?n"
    by (rule length_py_slice_in_range[OF f0 fl]) (use ll cache in simp)
  have tn_len: "length ?tn = ?n"
    by (rule length_py_slice_in_range[OF f0 fl]) (use ll cache in simp)
  let ?on = "case chord of None \<Rightarrow> chord_onset
             | Some c \<Rightarrow> if ?aligns then chord_onset else c_onset c"
  let ?off = "case chord of None \<Rightarrow> chord_offset
             | Some c \<Rightarrow> if (case chord of None \<Rightarrow> True | Some c \<Rightarrow> c_offset c = chord_offset)
                          then chord_offset else c_offset c"
  let ?vectors = "window_vectors to_vec mdf ?on ?off chord_duration min_pitch max_pitch
                    ?chord_notes ?note_onsets ?fp ?tn"
  have v_len: "length ?vectors = ?n"
    using cn_len no_len fp_len tn_len by (simp add: window_vectors_length)
  have v_nth: "\<exists>kw. ?vectors ! k = to_vec (notes ! (nat ?f + k)) kw" if k: "k < length ?vectors" for k
  proof -
    from k have "k < ?n" using v_len by simp
    from cn_nth[OF this] window_vectors_nth[OF k] show ?thesis by auto
  qed
  have v_fixed: "\<forall>v \<in> set ?vectors. length v = d"
    using fixed by (auto simp: window_vectors_def)
  have "?vectors \<noteq> []" using v_len npos by auto
  from np_vstack_fixed[OF this v_fixed]
  have vs: "np_vstack ?vectors = Inr ?vectors" and hd: "length (hd ?vectors) = d" by simp_all
  have rows: "nat (?woff - ?wo) = nat (?f - ?wo) + ?n + nat (?woff - ?l)"
    using fw fl lw by linarith
  have nonneg: "\<not> ?woff - ?wo < 0" using fw fl lw by linarith
  have start: "0 + (?f - ?wo) = ?f - ?wo" by simp
  have stop: "int (length (replicate (nat (?woff - ?wo)) (replicate d (0::real)))) - (?woff - ?l)
               = (?f - ?wo) + int ?n"
    using fw fl lw by simp
  have asg: "assign_rows (replicate (nat (?f - ?wo) + ?n + nat (?woff - ?l)) (replicate d (0::real)))
               (?f - ?wo) ((?f - ?wo) + int ?n) ?vectors
             = Inr (replicate (nat (?f - ?wo)) (replicate d 0) @ ?vectors
                    @ replicate (nat (?woff - ?l)) (replicate d 0))"
    by (rule assign_rows_padding) (use fw lw v_len in simp_all)
  have res: "get_chord_note_input to_vec get_midi_note_number notes mdf chord_onset chord_offset
             chord_duration change_index onset_index offset_index window (Some dc) chord
           = Inr (replicate (nat (?f - ?wo)) (replicate d 0) @ ?vectors
                  @ replicate (nat (?woff - ?l)) (replicate d 0))"
    unfolding get_chord_note_input_def Let_def
    unfolding first_note_index_def[symmetric] last_note_index_def[symmetric]
    unfolding option.case sum.case mn mx vs hd
    unfolding start stop
    using nonneg asg[folded rows] by (simp only: if_False)
  have total: "nat (?f - ?wo) + length ?vectors + nat (?woff - ?l)
                 = nat (offset_index - onset_index + 2 * window)"
    using rows v_len by (simp add: algebra_simps)
  from res v_len v_nth total show ?thesis
    unfolding first_note_index_def last_note_index_def by blast
qed

lemmas window_eval = get_chord_note_input_def Let_def ten_notes_def ten_durations_def note_at_def
  example_to_vec_def example_midi_number_def py_slice_def py_bound_def window_vectors_def
  np_vstack_def assign_rows_def note_onset_of_def upto_rec1 eval_nat_numeral

theorem chord_note_input_window_witness:
  "(\<exists>rows.
      get_chord_note_input example_to_vec example_midi_number ten_notes () (3, 0) (7, 0) 4
        3 3 7 5 (Some ten_durations) None = Inr rows \<and>
      length rows = 14 \<and> take 2 rows = [[0, 0], [0, 0]] \<and> drop 12 rows = [[0, 0], [0, 0]]) \<and>
   (\<exists>rows.
      get_chord_note_input example_to_vec example_midi_number ten_notes () (3, 0) (7, 0) 4
        3 3 7 0 (Some ten_durations) None = Inr rows \<and>
      length rows = 4)"
proof -
  have len: "length ten_notes = 10" "length ten_durations = length ten_notes"
    by (simp_all add: ten_notes_def ten_durations_def)
  have fixed: "\<forall>note kw. length (example_to_vec note kw) = 2"
    by (simp add: example_to_vec_def)
  have z: "replicate 2 (0::real) = [0, 0]" by (simp add: eval_nat_numeral)
  have some5: "max (3 - 5) 0 < min (7 + 5) (int (length ten_notes))" by (simp add: len)
  have e5: "nat (max (3 - 5) 0 - (3 - 5)) = 2"
    "nat (7 + 5 - min (7 + 5) (int (length ten_notes))) = 2"
    "nat (min (7 + 5) (int (length ten_notes)) - max (3 - 5) 0) = 10"
    by (simp_all add: len)
  from chord_note_input_window[OF some5 len(2) fixed, of example_midi_number "()" "(3, 0)"
      "(7, 0)" 4 3 None]
  obtain vectors where
    v: "get_chord_note_input example_to_vec example_midi_number ten_notes () (3, 0) (7, 0) 4
          3 3 7 5 (Some ten_durations) None
        = Inr (replicate 2 [0, 0] @ vectors @ replicate 2 [0, 0])"
       "length vectors = 10"
    unfolding e5 z by blast
  have r5: "length (replicate 2 [0, 0 :: real] @ vectors @ replicate 2 [0, 0]) = 14 \<and>
            take 2 (replicate 2 [0, 0 :: real] @ vectors @ replicate 2 [0, 0]) = [[0, 0], [0, 0]] \<and>
            drop 12 (replicate 2 [0, 0 :: real] @ vectors @ replicate 2 [0, 0]) = [[0, 0], [0, 0]]"
    using v(2) by (simp add: eval_nat_numeral)
  have some0: "max (3 - 0) 0 < min (7 + 0) (int (length ten_notes))" by (simp add: len)
  have e0: "nat (max (3 - 0) 0 - (3 - 0)) = 0"
    "nat (7 + 0 - min (7 + 0) (int (length ten_notes))) = 0"
    "nat (min (7 + 0) (int (length ten_notes)) - max (3 - 0) 0) = 4"
    by (simp_all add: len)
  from chord_note_input_window[OF some0 len(2) fixed, of example_midi_number "()" "(3, 0)"
      "(7, 0)" 4 3 None]
  obtain vectors0 where
    v0: "get_chord_note_input example_to_vec example_midi_number ten_notes () (3, 0) (7, 0) 4
          3 3 7 0 (Some ten_durations) None
        = Inr (replicate 0 [0, 0] @ vectors0 @ replicate 0 [0, 0])"
       "length vectors0 = 4"
    unfolding e0 z by blast
  from v(1) r5 v0 show ?thesis by simp
qed

text \<open>
  The claim as written fails for window 5: the function returns fourteen rows, not ten,
  and row 9 is the vector of the note of index 7, not a zero row; the zero rows after the
  notes are rows \<open>[12, 14)\<close>.
\<close>

theorem chord_note_input_window_5_rows:
  "get_chord_note_input example_to_vec example_midi_number ten_notes () (3, 0) (7, 0) 4
     3 3 7 5 (Some ten_durations) None
   = Inr [[0, 0], [0, 0], [1, 4], [2, 4], [3, 4], [4, 4], [5, 4], [6, 4], [7, 4], [8, 4],
          [9, 4], [10, 4], [0, 0], [0, 0]] \<and>
   length [[0, 0], [0, 0], [1, 4], [2, 4], [3, 4], [4, 4], [5, 4], [6, 4], [7, 4], [8, 4],
          [9, 4], [10, 4], [0, 0], [0, 0 :: real]] = 14 \<and>
   [[0, 0], [0, 0], [1, 4], [2, 4], [3, 4], [4, 4], [5, 4], [6, 4], [7, 4], [8, 4],
          [9, 4], [10, 4], [0, 0], [0, 0 :: real]] ! 9 = [8, 4]"
  by (simp add: window_eval)

section \<open>Duration-weighted accuracy\<close>

lemma correct_mask_fold:
  "length correct = length df \<Longrightarrow>
   fold (\<lambda>f correct. map (\<lambda>(c, row). c \<and> py_eq (gt row f) (est row f)) (zip correct df))
        features correct
     = map (\<lambda>(c, row). c \<and> all_match features row) (zip correct df)"
proof (induction features arbitrary: correct)
  case Nil
  then show ?case by (simp add: all_match_def map_idI map_fst_zip[symmetric] split_def)
next
  case (Cons f features)
  let ?c = "map (\<lambda>(c, row). c \<and> py_eq (gt row f) (est row f)) (zip correct df)"
  have len: "length ?c = length df" using Cons.prems by simp
  have "map (\<lambda>(c, row). c \<and> all_match features row) (zip ?c df)
        = map (\<lambda>(c, row). c \<and> all_match (f # features) row) (zip correct df)"
    using Cons.prems
    by (intro nth_equalityI) (auto simp: all_match_def)
  with Cons.IH[OF len] show ?case by simp
qed

lemma correct_mask_eq:
  "fold (\<lambda>f correct. map (\<lambda>(c, row). c \<and> py_eq (gt row f) (est row f)) (zip correct df))
        features (replicate (length df) True)
     = map (all_match features) df"
proof -
  have "map (\<lambda>(c, row). c \<and> all_match features row) (zip (replicate (length df) True) df)
        = map (all_match features) df"
    by (intro nth_equalityI) auto
  then show ?thesis by (simp add: correct_mask_fold)
qed

lemma weighted_sum_filter:
  "sum_list (map (\<lambda>(c, w). (if c then 1 else 0) * w) (zip (map P df) (map duration df)))
     = sum_list (map duration (filter P df))"
  by (induction df) auto

lemma evaluate_features_selected:
  assumes "case flt of None \<Rightarrow> True | Some m \<Rightarrow> length m = length results_df"
  shows "evaluate_features results_df features flt =
           (if selected_rows results_df flt = [] then Inr 0
            else if sum_list (map duration (selected_rows results_df flt)) = 0
            then Inl ZeroDivisionError
            else Inr (sum_list (map duration
                        (filter (all_match features) (selected_rows results_df flt)))
                      / sum_list (map duration (selected_rows results_df flt))))"
  using assms
  by (cases flt)
     (simp_all add: evaluate_features_def selected_rows_def Let_def correct_mask_eq np_average_def
        weighted_sum_filter)

text \<open>
  Claim C5. For a filter that is a mask over the rows (or no filter), the function returns
  0 when no row is selected. When rows are selected and their durations do not sum to
  zero, as for the positive durations of a results frame, it returns the durations of the
  rows in which every requested feature matches, divided by the durations of all selected
  rows: 1 when every selected row matches and 0 when none does.
\<close>

theorem evaluate_features_weighted_accuracy:
  assumes "case flt of None \<Rightarrow> True | Some m \<Rightarrow> length m = length results_df"
  shows "(selected_rows results_df flt = [] \<longrightarrow>
            evaluate_features results_df features flt = Inr 0) \<and>
         (selected_rows results_df flt \<noteq> [] \<and>
          sum_list (map duration (selected_rows results_df flt)) \<noteq> 0 \<longrightarrow>
            evaluate_features results_df features flt =
              Inr (sum_list (map duration
                     (filter (all_match features) (selected_rows results_df flt)))
                   / sum_list (map duration (selected_rows results_df flt))) \<and>
            ((\<forall>row \<in> set (selected_rows results_df flt). all_match features row) \<longrightarrow>
               evaluate_features results_df features flt = Inr 1) \<and>
            ((\<forall>row \<in> set (selected_rows results_df flt). \<not> all_match features row) \<longrightarrow>
               evaluate_features results_df features flt = Inr 0))"
proof -
  note e = evaluate_features_selected[OF assms, of features]
  let ?sel = "selected_rows results_df flt"
  have all: "filter (all_match features) ?sel = ?sel"
    if "\<forall>row \<in> set ?sel. all_match features row" using that by simp
  have none: "filter (all_match features) ?sel = []"
    if "\<forall>row \<in> set ?sel. \<not> all_match features row" using that by simp
  show ?thesis using e all none by auto
qed

theorem evaluate_features_weighted_accuracy_witness:
  "evaluate_features [example_row 14 2, example_row 15 1] [F_chord, F_root] None = Inr (2 / 3) \<and>
   evaluate_features [example_row 14 2, example_row 15 1] [F_chord, F_root] (Some [True, False])
     = Inr 1 \<and>
   evaluate_features [example_row 14 2, example_row 15 1] [F_chord, F_root] (Some [False, True])
     = Inr 0 \<and>
   evaluate_features [example_row 14 2, example_row 15 1] [F_chord, F_root] (Some [False, False])
     = Inr 0"
proof -
  let ?df = "[example_row 14 2, example_row 15 1]" and ?fs = "[F_chord, F_root]"
  have m: "all_match ?fs (example_row 14 2)" "\<not> all_match ?fs (example_row 15 1)"
    by (simp_all add: all_match_def example_row_def)
  have d: "duration (example_row 14 2) = 2" "duration (example_row 15 1) = 1"
    by (simp_all add: example_row_def)
  have s: "selected_rows ?df None = ?df"
    "selected_rows ?df (Some [True, False]) = [example_row 14 2]"
    "selected_rows ?df (Some [False, True]) = [example_row 15 1]"
    "selected_rows ?df (Some [False, False]) = []"
    by (simp_all add: selected_rows_def mask_select_def)
  have 1: "evaluate_features ?df ?fs None = Inr (2 / 3)"
    using evaluate_features_weighted_accuracy
            [where flt = None and results_df = ?df and features = ?fs] m d unfolding s by simp
  have 2: "evaluate_features ?df ?fs (Some [True, False]) = Inr 1"
    using evaluate_features_weighted_accuracy
            [where flt = "Some [True, False]" and results_df = ?df and features = ?fs] m d
    unfolding s by simp
  have 3: "evaluate_features ?df ?fs (Some [False, True]) = Inr 0"
    using evaluate_features_weighted_accuracy
            [where flt = "Some [False, True]" and results_df = ?df and features = ?fs] m d
    unfolding s by simp
  have 4: "evaluate_features ?df ?fs (Some [False, False]) = Inr 0"
    using evaluate_features_weighted_accuracy
            [where flt = "Some [False, False]" and results_df = ?df and features = ?fs]
    unfolding s by simp
  from 1 2 3 4 show ?thesis by blast
qed

section \<open>The results frame\<close>

lemma set_slice_length: "length (set_slice arr s e v) = length arr"
  by (simp add: set_slice_def)

lemma set_slice_nth:
  "j < length arr \<Longrightarrow> set_slice arr s e v ! j = (if s \<le> j \<and> j < e then v else arr ! j)"
  by (simp add: set_slice_def nth_enumerate_eq)

lemma set_from_length: "length (set_from arr s v) = length arr"
  by (simp add: set_from_def)

lemma set_from_nth:
  "j < length arr \<Longrightarrow> set_from arr s v ! j = (if s \<le> j then v else arr ! j)"
  by (simp add: set_from_def nth_enumerate_eq)

lemma fold_set_slice_length:
  "length (fold (\<lambda>(v, start, stop) a. set_slice a start stop v) segs arr) = length arr"
  by (induction segs arbitrary: arr) (auto simp: set_slice_length)

lemma find_app:
  "find P (xs @ ys) = (case find P xs of None \<Rightarrow> find P ys | Some x \<Rightarrow> Some x)"
  by (induction xs) auto

text \<open>
  After the loop a cell holds the value of the last segment that covers it, or its old
  value when no segment does.
\<close>

lemma fold_set_slice_nth:
  "j < length arr \<Longrightarrow>
   fold (\<lambda>(v, start, stop) a. set_slice a start stop v) segs arr ! j =
     (case find (\<lambda>(v, start, stop). start \<le> j \<and> j < stop) (rev segs) of
        None \<Rightarrow> arr ! j
      | Some (v, start, stop) \<Rightarrow> v)"
proof (induction segs arbitrary: arr)
  case Nil
  then show ?case by simp
next
  case (Cons seg segs)
  obtain v s e where seg: "seg = (v, s, e)" by (cases seg)
  have len: "j < length (set_slice arr s e v)" using Cons.prems by (simp add: set_slice_length)
  show ?case
    using Cons.IH[OF len] Cons.prems
    by (auto simp: seg find_app set_slice_nth split: option.splits)
qed


text \<open>
  For non-decreasing change indices the segments do not overlap, so the segment that
  covers a cell is the only one, and the cell holds its value.
\<close>

lemma segments_nth:
  assumes "i < length values" "i + 1 < length changes"
  shows "zip values (zip changes (tl changes)) ! i = (values ! i, changes ! i, changes ! (i + 1))"
    and "i < length (zip values (zip changes (tl changes)))"
  using assms by (simp_all add: nth_tl)

lemma broadcast_segments_length:
  "length (broadcast_segments arr values changes) = length arr"
  by (simp add: broadcast_segments_def fold_set_slice_length)

lemma broadcast_segments_covered:
  assumes srt: "sorted changes"
      and i: "i < length values" "i + 1 < length changes"
      and j: "changes ! i \<le> j" "j < changes ! (i + 1)" "j < length arr"
  shows "broadcast_segments arr values changes ! j = values ! i"
proof -
  define segs where "segs = zip values (zip changes (tl changes))"
  define P where "P = (\<lambda>(v :: 'a, start, stop). start \<le> j \<and> j < stop)"
  have seg_nth: "segs ! k = (values ! k, changes ! k, changes ! (k + 1))"
    if "k < length values" "k + 1 < length changes" for k
    unfolding segs_def by (rule segments_nth(1)[OF that])
  have seg_len: "k < length values \<and> k + 1 < length changes" if "k < length segs" for k
    using that unfolding segs_def by (cases changes) auto
  have il: "i < length segs" unfolding segs_def by (rule segments_nth(2)[OF i])
  then have "segs ! i \<in> set segs" by (rule nth_mem)
  then have mem: "segs ! i \<in> set (rev segs)" by (simp only: set_rev)
  have cov: "P (segs ! i)" using seg_nth[OF i] j by (simp add: P_def)
  from mem cov have "find P (rev segs) \<noteq> None" unfolding find_None_iff by blast
  then obtain y where y: "find P (rev segs) = Some y" by blast
  then obtain k where k: "k < length (rev segs)" "P (rev segs ! k)" "y = rev segs ! k"
    unfolding find_Some_iff by blast
  from k(1) have "rev segs ! k \<in> set (rev segs)" by (rule nth_mem)
  with k have "y \<in> set (rev segs)" "P y" by simp_all
  then have "y \<in> set segs" by (simp only: set_rev)
  then obtain i' where i': "i' < length segs" "segs ! i' = y"
    unfolding in_set_conv_nth by blast
  note il' = seg_len[OF i'(1)]
  have y': "y = (values ! i', changes ! i', changes ! (i' + 1))"
    using seg_nth[of i'] il' i'(2) by simp
  with \<open>P y\<close> have c': "changes ! i' \<le> j" "j < changes ! (i' + 1)" by (simp_all add: P_def)
  have "i' = i"
  proof (rule ccontr)
    assume ne: "i' \<noteq> i"
    show False
    proof (cases "i' < i")
      case True
      have "changes ! (i' + 1) \<le> changes ! i"
        by (rule sorted_nth_mono[OF srt]) (use True i in simp_all)
      with c' j show False by simp
    next
      case False
      with ne have le: "i + 1 \<le> i'" by simp
      have "changes ! (i + 1) \<le> changes ! i'"
        by (rule sorted_nth_mono[OF srt le]) (use il' in simp)
      with c' j show False by simp
    qed
  qed
  with y y' have f: "find P (rev segs) = Some (values ! i, changes ! i, changes ! (i + 1))"
    by simp
  have "broadcast_segments arr values changes ! j =
          (case find P (rev segs) of None \<Rightarrow> arr ! j | Some (v, start, stop) \<Rightarrow> v)"
    unfolding broadcast_segments_def segs_def P_def by (rule fold_set_slice_nth[OF j(3)])
  then show ?thesis unfolding f by simp
qed

text \<open>
  The ground truth: segment \<open>i\<close> runs from its change index to the next one, the last
  segment to the end of the notes.
\<close>

lemma broadcast_gt_covered:
  assumes res: "broadcast_gt arr values changes = Inr res"
      and srt: "sorted changes" and len: "length values = length changes"
      and i: "i < length values"
      and j: "changes ! i \<le> j" "i + 1 < length values \<longrightarrow> j < changes ! (i + 1)"
             "j < length arr"
  shows "res ! j = values ! i" and "length res = length arr"
proof -
  let ?looped = "broadcast_segments arr values changes"
  from res have ne: "values \<noteq> []" "changes \<noteq> []"
    and r: "res = set_from ?looped (last changes) (last values)"
    by (auto simp: broadcast_gt_def Let_def split: if_splits)
  show "length res = length arr" by (simp add: r set_from_length broadcast_segments_length)
  have jl: "j < length ?looped" using j(3) by (simp add: broadcast_segments_length)
  show "res ! j = values ! i"
  proof (cases "i + 1 < length values")
    case True
    then have lt: "j < changes ! (i + 1)" using j(2) by simp
    have "changes ! (i + 1) \<le> changes ! (length changes - 1)"
      by (rule sorted_nth_mono[OF srt]) (use True len in simp_all)
    then have "\<not> last changes \<le> j" using lt ne by (simp add: last_conv_nth)
    then have "res ! j = ?looped ! j" by (simp add: r set_from_nth[OF jl])
    also have "\<dots> = values ! i"
      by (rule broadcast_segments_covered[OF srt i _ j(1) lt j(3)]) (use True len in simp)
    finally show ?thesis .
  next
    case False
    with i have il: "i = length values - 1" by simp
    then have "last changes \<le> j" "last values = values ! i"
      using j(1) ne len by (simp_all add: last_conv_nth)
    then show ?thesis by (simp add: r set_from_nth[OF jl])
  qed
qed

lemma results_row_duration:
  "results_row cl kl t = Inr row \<Longrightarrow> duration row = fst t"
  by (cases t) (auto simp: results_row_def split: sum.splits)

lemma results_loop_rows:
  "results_loop cl kl ts = Inr rows \<Longrightarrow>
   list_all2 (\<lambda>t row. results_row cl kl t = Inr row) (filter (\<lambda>t. fst t \<noteq> 0) ts) rows"
proof (induction ts arbitrary: rows)
  case Nil
  then show ?case by simp
next
  case (Cons t ts)
  show ?case
  proof (cases "fst t = 0")
    case True
    with Cons show ?thesis by simp
  next
    case False
    with Cons.prems obtain row rows' where
      r: "results_row cl kl t = Inr row" "results_loop cl kl ts = Inr rows'" "rows = row # rows'"
      by (auto split: sum.splits)
    with Cons.IH[OF r(2)] False show ?thesis by simp
  qed
qed

lemma filter_by_index:
  "filter P xs = map (nth xs) (filter (\<lambda>j. P (xs ! j)) [0..<length xs])"
proof -
  have "filter P xs = filter P (map (nth xs) [0..<length xs])" by (simp only: map_nth)
  also have "\<dots> = map (nth xs) (filter (P \<circ> nth xs) [0..<length xs])" by (rule filter_map)
  finally show ?thesis by (simp add: comp_def)
qed

lemma sum_list_filter_nonzero:
  "sum_list (map f (filter (\<lambda>t. f t \<noteq> (0::rat)) ts)) = sum_list (map f ts)"
  by (induction ts) auto

lemma key_input_indices_eq:
  "get_key_change_input_indices_from chord_changes key_changes = Inr r \<Longrightarrow>
   r = map (nth chord_changes) key_changes \<and> (\<forall>i \<in> set key_changes. i < length chord_changes)"
  by (induction key_changes arbitrary: r) (auto split: if_splits sum.splits)

lemma key_input_indices_sorted:
  assumes "get_key_change_input_indices_from chord_changes key_changes = Inr r"
      and "sorted chord_changes" "sorted key_changes"
  shows "sorted r" and "length r = length key_changes"
proof -
  note e = key_input_indices_eq[OF assms(1)]
  show "length r = length key_changes" using e by simp
  show "sorted r" unfolding sorted_iff_nth_mono
  proof (intro allI impI)
    fix a b assume ab: "a \<le> b" "b < length r"
    have bl: "b < length key_changes" using e ab by simp
    have kk: "key_changes ! a \<le> key_changes ! b"
      by (rule sorted_nth_mono[OF assms(3) ab(1) bl])
    have "key_changes ! b < length chord_changes" using e bl by simp
    then have "chord_changes ! (key_changes ! a) \<le> chord_changes ! (key_changes ! b)"
      by (rule sorted_nth_mono[OF assms(2) kk])
    then show "r ! a \<le> r ! b" using e ab by simp
  qed
qed

lemma rows_of_arrays:
  assumes loop: "results_loop cl kl (zip cache (zip ec (zip gc (zip ek gk)))) = Inr rows"
      and len: "length ec = n" "length gc = n" "length ek = n" "length gk = n"
  shows "list_all2 (\<lambda>j row. cache ! j \<noteq> 0 \<and>
                      results_row cl kl (cache ! j, ec ! j, gc ! j, ek ! j, gk ! j) = Inr row \<and>
                      duration row = cache ! j)
           (filter (\<lambda>j. cache ! j \<noteq> 0) [0..<min (length cache) n]) rows"
    and "\<forall>row \<in> set rows. duration row \<noteq> 0"
    and "sum_list (map duration rows) = sum_list (take n cache)"
proof -
  define ts where "ts = zip cache (zip ec (zip gc (zip ek gk)))"
  have tl: "length ts = min (length cache) n" using len by (simp add: ts_def)
  have tn: "ts ! j = (cache ! j, ec ! j, gc ! j, ek ! j, gk ! j)" if "j < length ts" for j
    using that len by (simp add: ts_def)
  define idx where "idx = filter (\<lambda>j. cache ! j \<noteq> 0) [0..<min (length cache) n]"
  have idx_mem: "j < length ts \<and> cache ! j \<noteq> 0" if "j \<in> set idx" for j
    using that by (simp add: idx_def tl)
  have "filter (\<lambda>j. fst (ts ! j) \<noteq> 0) [0..<length ts] = idx"
    unfolding idx_def tl[symmetric] by (rule filter_cong) (simp_all add: tn)
  then have f: "filter (\<lambda>t. fst t \<noteq> 0) ts = map (nth ts) idx"
    using filter_by_index[of "\<lambda>t. fst t \<noteq> 0" ts] by simp
  from results_loop_rows[OF loop[folded ts_def]]
  have a: "list_all2 (\<lambda>j row. results_row cl kl (ts ! j) = Inr row) idx rows"
    unfolding f by (simp add: list_all2_map1)
  then have ll: "length idx = length rows" by (rule list_all2_lengthD)
  have pt: "cache ! (idx ! k) \<noteq> 0 \<and>
            results_row cl kl (cache ! (idx ! k), ec ! (idx ! k), gc ! (idx ! k), ek ! (idx ! k),
              gk ! (idx ! k)) = Inr (rows ! k) \<and>
            duration (rows ! k) = cache ! (idx ! k)" if k: "k < length idx" for k
  proof -
    from k have "idx ! k \<in> set idx" by (rule nth_mem)
    note m = idx_mem[OF this]
    from a k have r: "results_row cl kl (ts ! (idx ! k)) = Inr (rows ! k)"
      by (simp add: list_all2_conv_all_nth)
    from results_row_duration[OF r] have "duration (rows ! k) = fst (ts ! (idx ! k))" .
    with r m tn[of "idx ! k"] show ?thesis by simp
  qed
  show "list_all2 (\<lambda>j row. cache ! j \<noteq> 0 \<and>
                      results_row cl kl (cache ! j, ec ! j, gc ! j, ek ! j, gk ! j) = Inr row \<and>
                      duration row = cache ! j)
           (filter (\<lambda>j. cache ! j \<noteq> 0) [0..<min (length cache) n]) rows"
    unfolding idx_def[symmetric] list_all2_conv_all_nth using ll pt by blast
  show "\<forall>row \<in> set rows. duration row \<noteq> 0"
  proof
    fix row assume "row \<in> set rows"
    then obtain k where "k < length rows" "rows ! k = row" by (auto simp: in_set_conv_nth)
    with pt[of k] ll show "duration row \<noteq> 0" by simp
  qed
  have "map duration rows = map (\<lambda>j. cache ! j) idx"
    by (rule nth_equalityI) (use ll pt in simp_all)
  also have "\<dots> = map fst (map (nth ts) idx)"
    using idx_mem tn by simp
  also have "\<dots> = map fst (filter (\<lambda>t. fst t \<noteq> 0) ts)" by (simp only: f)
  finally have "sum_list (map duration rows) = sum_list (map fst ts)"
    by (simp only: sum_list_filter_nonzero)
  also have "map fst ts = take n cache"
    using len by (simp add: ts_def map_fst_zip_take min_def)
  finally show "sum_list (map duration rows) = sum_list (take n cache)" .
qed

lemma gt_array_covered:
  assumes "broadcast_gt (replicate n z) (map entry objs) changes = Inr arr"
      and "sorted changes" "length objs = length changes"
  shows "length arr = n"
    and "\<forall>i j. in_gt_segment changes i j \<and> j < n \<longrightarrow> arr ! j = entry (objs ! i)"
proof -
  from assms(1) have ne: "map entry objs \<noteq> []"
    by (auto simp: broadcast_gt_def Let_def split: if_splits)
  then have "0 < length (map entry objs)" by simp
  have c: "arr ! j = map entry objs ! i \<and> length arr = length (replicate n z)"
    if "i < length (map entry objs)" "changes ! i \<le> j"
       "i + 1 < length (map entry objs) \<longrightarrow> j < changes ! (i + 1)" "j < length (replicate n z)"
    for i j
    using broadcast_gt_covered[OF assms(1,2) _ that] assms(3) by simp
  show "\<forall>i j. in_gt_segment changes i j \<and> j < n \<longrightarrow> arr ! j = entry (objs ! i)"
  proof (intro allI impI)
    fix i j assume h: "in_gt_segment changes i j \<and> j < n"
    then have "i < length (map entry objs)" "changes ! i \<le> j"
       "i + 1 < length (map entry objs) \<longrightarrow> j < changes ! (i + 1)" "j < length (replicate n z)"
      using assms(3) by (auto simp: in_gt_segment_def split: if_splits)
    from c[OF this] h assms(3) show "arr ! j = entry (objs ! i)"
      by (simp add: in_gt_segment_def)
  qed
  from assms(1) show "length arr = n"
    by (auto simp: broadcast_gt_def Let_def set_from_length broadcast_segments_length
        split: if_splits)
qed

lemma est_array_covered:
  assumes "sorted changes"
  shows "length (broadcast_segments (replicate n z) vs changes) = n"
    and "\<forall>i j. in_est_segment changes i j \<and> i < length vs \<and> j < n \<longrightarrow>
           broadcast_segments (replicate n z) vs changes ! j = vs ! i"
proof -
  show "length (broadcast_segments (replicate n z) vs changes) = n"
    by (simp add: broadcast_segments_length)
  show "\<forall>i j. in_est_segment changes i j \<and> i < length vs \<and> j < n \<longrightarrow>
           broadcast_segments (replicate n z) vs changes ! j = vs ! i"
  proof (intro allI impI)
    fix i j assume h: "in_est_segment changes i j \<and> i < length vs \<and> j < n"
    then have "i < length vs" "i + 1 < length changes" "changes ! i \<le> j"
      "j < changes ! (i + 1)" "j < length (replicate n z)"
      by (simp_all add: in_est_segment_def)
    from broadcast_segments_covered[OF assms this]
    show "broadcast_segments (replicate n z) vs changes ! j = vs ! i" .
  qed
qed

lemma py_index_Inr:
  assumes "py_index xs i = Inr s"
  shows "(let l = i; k = (if l < 0 then int (length xs) + l else l)
          in 0 \<le> k \<and> k < int (length xs) \<and> s = xs ! nat k)"
  using assms by (simp add: py_index_def Let_def split: if_splits)

lemma results_row_fields:
  assumes "results_row cl kl (d, ec, gc, ek, gk) = Inr row"
  shows "duration row = d"
    and "(let l = ke_label gk; k = (if l < 0 then int (length kl) + l else l)
          in 0 \<le> k \<and> k < int (length kl) \<and> gt row F_key = StrV (kl ! nat k))"
    and "(let l = ce_label gc; k = (if l < 0 then int (length cl) + l else l)
          in 0 \<le> k \<and> k < int (length cl) \<and> gt row F_chord = StrV (cl ! nat k))"
    and "(let l = ke_label ek; k = (if l < 0 then int (length kl) + l else l)
          in 0 \<le> k \<and> k < int (length kl) \<and> est row F_key = StrV (kl ! nat k))"
    and "(let l = ce_label ec; k = (if l < 0 then int (length cl) + l else l)
          in 0 \<le> k \<and> k < int (length cl) \<and> est row F_chord = StrV (cl ! nat k))"
    and "gt row F_tonic = IntV (ke_tonic gk) \<and> gt row F_mode = ke_mode gk \<and>
         gt row F_root = IntV (ce_root gc) \<and> gt row F_chord_type = ce_chord_type gc \<and>
         gt row F_triad = ce_triad gc \<and> gt row F_inversion = IntV (ce_inversion gc) \<and>
         gt row F_pitches = ce_pitches gc \<and> gt row F_is_default = BoolV (ce_is_default gc)"
    and "est row F_tonic = IntV (ke_tonic ek) \<and> est row F_mode = ke_mode ek \<and>
         est row F_root = IntV (ce_root ec) \<and> est row F_chord_type = ce_chord_type ec \<and>
         est row F_triad = ce_triad ec \<and> est row F_inversion = IntV (ce_inversion ec) \<and>
         est row F_pitches = ce_pitches ec \<and> est row F_is_default = BoolV (ce_is_default ec)"
proof -
  from assms obtain s1 s2 s3 s4 where
    i1: "py_index kl (ke_label gk) = Inr s1" and i2: "py_index cl (ce_label gc) = Inr s2" and
    i3: "py_index kl (ke_label ek) = Inr s3" and i4: "py_index cl (ce_label ec) = Inr s4" and
    g: "gt row = (\<lambda>f. case f of
                       F_key \<Rightarrow> StrV s1 | F_tonic \<Rightarrow> IntV (ke_tonic gk)
                     | F_mode \<Rightarrow> ke_mode gk | F_chord \<Rightarrow> StrV s2
                     | F_root \<Rightarrow> IntV (ce_root gc) | F_chord_type \<Rightarrow> ce_chord_type gc
                     | F_triad \<Rightarrow> ce_triad gc | F_inversion \<Rightarrow> IntV (ce_inversion gc)
                     | F_pitches \<Rightarrow> ce_pitches gc | F_is_default \<Rightarrow> BoolV (ce_is_default gc))" and
    e: "est row = (\<lambda>f. case f of
                       F_key \<Rightarrow> StrV s3 | F_tonic \<Rightarrow> IntV (ke_tonic ek)
                     | F_mode \<Rightarrow> ke_mode ek | F_chord \<Rightarrow> StrV s4
                     | F_root \<Rightarrow> IntV (ce_root ec) | F_chord_type \<Rightarrow> ce_chord_type ec
                     | F_triad \<Rightarrow> ce_triad ec | F_inversion \<Rightarrow> IntV (ce_inversion ec)
                     | F_pitches \<Rightarrow> ce_pitches ec | F_is_default \<Rightarrow> BoolV (ce_is_default ec))" and
    d: "duration row = d"
    unfolding results_row_def by (auto split: sum.splits)
  show "duration row = d" by (rule d)
  show "(let l = ke_label gk; k = (if l < 0 then int (length kl) + l else l)
          in 0 \<le> k \<and> k < int (length kl) \<and> gt row F_key = StrV (kl ! nat k))"
    using py_index_Inr[OF i1] by (simp add: g Let_def)
  show "(let l = ce_label gc; k = (if l < 0 then int (length cl) + l else l)
          in 0 \<le> k \<and> k < int (length cl) \<and> gt row F_chord = StrV (cl ! nat k))"
    using py_index_Inr[OF i2] by (simp add: g Let_def)
  show "(let l = ke_label ek; k = (if l < 0 then int (length kl) + l else l)
          in 0 \<le> k \<and> k < int (length kl) \<and> est row F_key = StrV (kl ! nat k))"
    using py_index_Inr[OF i3] by (simp add: e Let_def)
  show "(let l = ce_label ec; k = (if l < 0 then int (length cl) + l else l)
          in 0 \<le> k \<and> k < int (length cl) \<and> est row F_chord = StrV (cl ! nat k))"
    using py_index_Inr[OF i4] by (simp add: e Let_def)
  show "gt row F_tonic = IntV (ke_tonic gk) \<and> gt row F_mode = ke_mode gk \<and>
         gt row F_root = IntV (ce_root gc) \<and> gt row F_chord_type = ce_chord_type gc \<and>
         gt row F_triad = ce_triad gc \<and> gt row F_inversion = IntV (ce_inversion gc) \<and>
         gt row F_pitches = ce_pitches gc \<and> gt row F_is_default = BoolV (ce_is_default gc)"
    by (simp add: g)
  show "est row F_tonic = IntV (ke_tonic ek) \<and> est row F_mode = ke_mode ek \<and>
         est row F_root = IntV (ce_root ec) \<and> est row F_chord_type = ce_chord_type ec \<and>
         est row F_triad = ce_triad ec \<and> est row F_inversion = IntV (ce_inversion ec) \<and>
         est row F_pitches = ce_pitches ec \<and> est row F_is_default = BoolV (ce_is_default ec)"
    by (simp add: e)
qed

text \<open>
  Claim C6. When \<^verbatim>\<open>get_results_df\<close> returns and the change indices of the piece and
  the boundaries of the estimate are sorted, with one change index per chord and per key:
  every note of a ground-truth chord segment carries the entry of that chord, and every
  note of a ground-truth key segment the entry of that key, where key \<open>i\<close> starts at
  note \<^verbatim>\<open>chord_changes[key_changes[i]]\<close>; the last segment runs from the last change to
  the end of the notes. Every note between two boundaries of the estimate carries the
  entry of the estimated label. The rows returned are those of the notes whose cached
  duration is not zero, in order; the row of note \<open>j\<close> has the duration of note \<open>j\<close>,
  and its twenty label columns hold the fields of the four entries of note \<open>j\<close>, the
  chord and key strings being those the label lists give at the entries' labels. So no
  row has duration zero and the durations of the rows sum to the durations of the notes.
\<close>

theorem get_results_df_broadcast_and_skip:
  assumes run: "get_results_df methods grl piece state ort ott crt ktt = Inr rows"
      and cs: "sorted (sp_chord_changes piece)"
      and cl: "length (sp_chords piece) = length (sp_chord_changes piece)"
      and ks: "sorted (sp_key_changes piece)"
      and kl: "length (sp_keys piece) = length (sp_key_changes piece)"
      and ecs: "sorted (st_chord_changes state)"
      and eks: "sorted (st_key_changes state)"
  shows "\<exists>gt_chords gt_keys cache.
     gt_chord_array methods piece crt = Inr gt_chords \<and>
     gt_key_array methods piece ktt = Inr gt_keys \<and>
     get_duration_cache grl piece = Inr cache \<and>
     get_key_change_input_indices piece =
       Inr (map (nth (sp_chord_changes piece)) (sp_key_changes piece)) \<and>
     (\<forall>i j. in_gt_segment (sp_chord_changes piece) i j \<and> j < length (sp_notes piece) \<longrightarrow>
        gt_chords ! j = gt_chord_entry methods crt (sp_chords piece ! i)) \<and>
     (\<forall>i j. in_gt_segment (map (nth (sp_chord_changes piece)) (sp_key_changes piece)) i j \<and>
            j < length (sp_notes piece) \<longrightarrow>
        gt_keys ! j = gt_key_entry methods ktt (sp_keys piece ! i)) \<and>
     (\<forall>i j. in_est_segment (st_chord_changes state) i j \<and> i < length (st_chords state) \<and>
            i < length (st_chord_pitches state) \<and> j < length (sp_notes piece) \<longrightarrow>
        est_chord_array methods piece state ort crt ! j =
          est_chord_entry methods ort crt (st_chords state ! i) (st_chord_pitches state ! i)) \<and>
     (\<forall>i j. in_est_segment (st_key_changes state) i j \<and> i < length (st_keys state) \<and>
            j < length (sp_notes piece) \<longrightarrow>
        est_key_array methods piece state ott ktt ! j =
          est_key_entry methods ott ktt (st_keys state ! i)) \<and>
     list_all2 (\<lambda>j row.
       cache ! j \<noteq> 0 \<and> duration row = cache ! j \<and>
       (let l = ke_label (gt_keys ! j);
            k = (if l < 0 then int (length (key_label_list methods ktt)) + l else l)
        in 0 \<le> k \<and> k < int (length (key_label_list methods ktt)) \<and>
           gt row F_key = StrV (key_label_list methods ktt ! nat k)) \<and>
       (let l = ce_label (gt_chords ! j);
            k = (if l < 0 then int (length (chord_label_list methods crt)) + l else l)
        in 0 \<le> k \<and> k < int (length (chord_label_list methods crt)) \<and>
           gt row F_chord = StrV (chord_label_list methods crt ! nat k)) \<and>
       (let l = ke_label (est_key_array methods piece state ott ktt ! j);
            k = (if l < 0 then int (length (key_label_list methods ktt)) + l else l)
        in 0 \<le> k \<and> k < int (length (key_label_list methods ktt)) \<and>
           est row F_key = StrV (key_label_list methods ktt ! nat k)) \<and>
       (let l = ce_label (est_chord_array methods piece state ort crt ! j);
            k = (if l < 0 then int (length (chord_label_list methods crt)) + l else l)
        in 0 \<le> k \<and> k < int (length (chord_label_list methods crt)) \<and>
           est row F_chord = StrV (chord_label_list methods crt ! nat k)) \<and>
       gt row F_tonic = IntV (ke_tonic (gt_keys ! j)) \<and>
       gt row F_mode = ke_mode (gt_keys ! j) \<and>
       gt row F_root = IntV (ce_root (gt_chords ! j)) \<and>
       gt row F_chord_type = ce_chord_type (gt_chords ! j) \<and>
       gt row F_triad = ce_triad (gt_chords ! j) \<and>
       gt row F_inversion = IntV (ce_inversion (gt_chords ! j)) \<and>
       gt row F_pitches = ce_pitches (gt_chords ! j) \<and>
       gt row F_is_default = BoolV (ce_is_default (gt_chords ! j)) \<and>
       est row F_tonic = IntV (ke_tonic (est_key_array methods piece state ott ktt ! j)) \<and>
       est row F_mode = ke_mode (est_key_array methods piece state ott ktt ! j) \<and>
       est row F_root = IntV (ce_root (est_chord_array methods piece state ort crt ! j)) \<and>
       est row F_chord_type = ce_chord_type (est_chord_array methods piece state ort crt ! j) \<and>
       est row F_triad = ce_triad (est_chord_array methods piece state ort crt ! j) \<and>
       est row F_inversion = IntV (ce_inversion (est_chord_array methods piece state ort crt ! j)) \<and>
       est row F_pitches = ce_pitches (est_chord_array methods piece state ort crt ! j) \<and>
       est row F_is_default = BoolV (ce_is_default (est_chord_array methods piece state ort crt ! j)))
       (filter (\<lambda>j. cache ! j \<noteq> 0) [0..<min (length cache) (length (sp_notes piece))]) rows \<and>
     (\<forall>row \<in> set rows. duration row \<noteq> 0) \<and>
     sum_list (map duration rows) = sum_list (take (length (sp_notes piece)) cache)"
proof -
  define n where "n = length (sp_notes piece)"
  define ec where "ec = est_chord_array methods piece state ort crt"
  define ek where "ek = est_key_array methods piece state ott ktt"
  define cl where "cl = chord_label_list methods crt"
  define kl where "kl = key_label_list methods ktt"
  from run obtain gc gk cache where
    gc: "gt_chord_array methods piece crt = Inr gc" and
    gk: "gt_key_array methods piece ktt = Inr gk" and
    cache: "get_duration_cache grl piece = Inr cache" and
    loop: "results_loop cl kl (zip cache (zip ec (zip gc (zip ek gk)))) = Inr rows"
    unfolding get_results_df_def Let_def ec_def ek_def cl_def kl_def by (auto split: sum.splits)
  from gk obtain ki where
    ki: "get_key_change_input_indices piece = Inr ki" and
    gk': "broadcast_gt (replicate n zero_key_entry)
            (map (gt_key_entry methods ktt) (sp_keys piece)) ki = Inr gk"
    unfolding gt_key_array_def n_def by (auto split: sum.splits)
  from ki have kif: "get_key_change_input_indices_from (sp_chord_changes piece)
                       (sp_key_changes piece) = Inr ki"
    by (simp add: get_key_change_input_indices_def)
  have kis: "sorted ki" and kil: "length ki = length (sp_key_changes piece)"
    using key_input_indices_sorted[OF kif cs ks] by simp_all
  have kie: "ki = map (nth (sp_chord_changes piece)) (sp_key_changes piece)"
    using key_input_indices_eq[OF kif] by blast
  from gc have gc': "broadcast_gt (replicate n zero_chord_entry)
            (map (gt_chord_entry methods crt) (sp_chords piece)) (sp_chord_changes piece) = Inr gc"
    by (simp add: gt_chord_array_def n_def)
  note G1 = gt_array_covered[OF gc' cs \<open>length (sp_chords piece) = length (sp_chord_changes piece)\<close>]
  have kl': "length (sp_keys piece) = length ki"
    using \<open>length (sp_keys piece) = length (sp_key_changes piece)\<close> kil by simp
  note G2 = gt_array_covered[OF gk' kis kl']
  define cvals where "cvals = map (\<lambda>(chord, pitches). est_chord_entry methods ort crt chord pitches)
            (zip (st_chords state) (st_chord_pitches state))"
  have ec_eq: "ec = broadcast_segments (replicate n zero_chord_entry) cvals (st_chord_changes state)"
    by (simp add: ec_def est_chord_array_def cvals_def n_def)
  have ek_eq: "ek = broadcast_segments (replicate n zero_key_entry)
                 (map (est_key_entry methods ott ktt) (st_keys state)) (st_key_changes state)"
    by (simp add: ek_def est_key_array_def n_def)
  have ecl: "length ec = n" unfolding ec_eq by (rule est_array_covered(1)[OF ecs])
  have ekl: "length ek = n" unfolding ek_eq by (rule est_array_covered(1)[OF eks])
  have E1: "ec ! j = est_chord_entry methods ort crt (st_chords state ! i) (st_chord_pitches state ! i)"
    if "in_est_segment (st_chord_changes state) i j" "i < length (st_chords state)"
       "i < length (st_chord_pitches state)" "j < n" for i j
  proof -
    have il: "i < length cvals" using that by (simp add: cvals_def)
    have "ec ! j = cvals ! i"
      unfolding ec_eq
      using est_array_covered(2)[OF ecs, where n = n and z = zero_chord_entry and vs = cvals]
        that(1,4) il
      by blast
    also have "cvals ! i = est_chord_entry methods ort crt (st_chords state ! i) (st_chord_pitches state ! i)"
      using that(2,3) by (simp add: cvals_def)
    finally show ?thesis .
  qed
  have E2: "ek ! j = est_key_entry methods ott ktt (st_keys state ! i)"
    if "in_est_segment (st_key_changes state) i j" "i < length (st_keys state)" "j < n" for i j
  proof -
    have il: "i < length (map (est_key_entry methods ott ktt) (st_keys state))" using that by simp
    have "ek ! j = map (est_key_entry methods ott ktt) (st_keys state) ! i"
      unfolding ek_eq
      using est_array_covered(2)[OF eks, where n = n and z = zero_key_entry
              and vs = "map (est_key_entry methods ott ktt) (st_keys state)"] that(1,3) il
      by blast
    with that(2) show ?thesis by simp
  qed
  note R = rows_of_arrays[OF loop ecl G1(1) ekl G2(1)]
  have R1: "list_all2 (\<lambda>j row.
       cache ! j \<noteq> 0 \<and> duration row = cache ! j \<and>
       (let l = ke_label (gk ! j);
            k = (if l < 0 then int (length (kl)) + l else l)
        in 0 \<le> k \<and> k < int (length (kl)) \<and>
           gt row F_key = StrV (kl ! nat k)) \<and>
       (let l = ce_label (gc ! j);
            k = (if l < 0 then int (length (cl)) + l else l)
        in 0 \<le> k \<and> k < int (length (cl)) \<and>
           gt row F_chord = StrV (cl ! nat k)) \<and>
       (let l = ke_label (ek ! j);
            k = (if l < 0 then int (length (kl)) + l else l)
        in 0 \<le> k \<and> k < int (length (kl)) \<and>
           est row F_key = StrV (kl ! nat k)) \<and>
       (let l = ce_label (ec ! j);
            k = (if l < 0 then int (length (cl)) + l else l)
        in 0 \<le> k \<and> k < int (length (cl)) \<and>
           est row F_chord = StrV (cl ! nat k)) \<and>
       gt row F_tonic = IntV (ke_tonic (gk ! j)) \<and>
       gt row F_mode = ke_mode (gk ! j) \<and>
       gt row F_root = IntV (ce_root (gc ! j)) \<and>
       gt row F_chord_type = ce_chord_type (gc ! j) \<and>
       gt row F_triad = ce_triad (gc ! j) \<and>
       gt row F_inversion = IntV (ce_inversion (gc ! j)) \<and>
       gt row F_pitches = ce_pitches (gc ! j) \<and>
       gt row F_is_default = BoolV (ce_is_default (gc ! j)) \<and>
       est row F_tonic = IntV (ke_tonic (ek ! j)) \<and>
       est row F_mode = ke_mode (ek ! j) \<and>
       est row F_root = IntV (ce_root (ec ! j)) \<and>
       est row F_chord_type = ce_chord_type (ec ! j) \<and>
       est row F_triad = ce_triad (ec ! j) \<and>
       est row F_inversion = IntV (ce_inversion (ec ! j)) \<and>
       est row F_pitches = ce_pitches (ec ! j) \<and>
       est row F_is_default = BoolV (ce_is_default (ec ! j)))
       (filter (\<lambda>j. cache ! j \<noteq> 0) [0..<min (length cache) n]) rows"
  proof (rule list_all2_mono[OF R(1)])
    fix j row
    assume a: "cache ! j \<noteq> 0 \<and>
      results_row cl kl (cache ! j, ec ! j, gc ! j, ek ! j, gk ! j) = Inr row \<and>
      duration row = cache ! j"
    then have r: "results_row cl kl (cache ! j, ec ! j, gc ! j, ek ! j, gk ! j) = Inr row"
      by blast
    note F = results_row_fields[OF r]
    from a have a1: "cache ! j \<noteq> 0" and a2: "duration row = cache ! j" by blast+
    from a1 a2 F(2) F(3) F(4) F(5) F(6) F(7) show "
       cache ! j \<noteq> 0 \<and> duration row = cache ! j \<and>
       (let l = ke_label (gk ! j);
            k = (if l < 0 then int (length (kl)) + l else l)
        in 0 \<le> k \<and> k < int (length (kl)) \<and>
           gt row F_key = StrV (kl ! nat k)) \<and>
       (let l = ce_label (gc ! j);
            k = (if l < 0 then int (length (cl)) + l else l)
        in 0 \<le> k \<and> k < int (length (cl)) \<and>
           gt row F_chord = StrV (cl ! nat k)) \<and>
       (let l = ke_label (ek ! j);
            k = (if l < 0 then int (length (kl)) + l else l)
        in 0 \<le> k \<and> k < int (length (kl)) \<and>
           est row F_key = StrV (kl ! nat k)) \<and>
       (let l = ce_label (ec ! j);
            k = (if l < 0 then int (length (cl)) + l else l)
        in 0 \<le> k \<and> k < int (length (cl)) \<and>
           est row F_chord = StrV (cl ! nat k)) \<and>
       gt row F_tonic = IntV (ke_tonic (gk ! j)) \<and>
       gt row F_mode = ke_mode (gk ! j) \<and>
       gt row F_root = IntV (ce_root (gc ! j)) \<and>
       gt row F_chord_type = ce_chord_type (gc ! j) \<and>
       gt row F_triad = ce_triad (gc ! j) \<and>
       gt row F_inversion = IntV (ce_inversion (gc ! j)) \<and>
       gt row F_pitches = ce_pitches (gc ! j) \<and>
       gt row F_is_default = BoolV (ce_is_default (gc ! j)) \<and>
       est row F_tonic = IntV (ke_tonic (ek ! j)) \<and>
       est row F_mode = ke_mode (ek ! j) \<and>
       est row F_root = IntV (ce_root (ec ! j)) \<and>
       est row F_chord_type = ce_chord_type (ec ! j) \<and>
       est row F_triad = ce_triad (ec ! j) \<and>
       est row F_inversion = IntV (ce_inversion (ec ! j)) \<and>
       est row F_pitches = ce_pitches (ec ! j) \<and>
       est row F_is_default = BoolV (ce_is_default (ec ! j))"
      by blast
  qed
  show ?thesis
    unfolding n_def[symmetric] ec_def[symmetric] ek_def[symmetric] cl_def[symmetric]
      kl_def[symmetric] kie[symmetric]
    apply (rule exI[of _ gc], rule exI[of _ gk], rule exI[of _ cache])
    apply (intro conjI)
              apply (rule gc[unfolded n_def[symmetric]])
             apply (rule gk)
            apply (rule cache)
           apply (rule ki)
          apply (rule G1(2))
         apply (rule G2(2))
    using E1 apply blast
    using E2 apply blast
      apply (rule R1)
     apply (rule R(2))
    apply (rule R(3))
    done
qed

lemmas results_eval =
  get_results_df_def gt_chord_array_def est_chord_array_def gt_key_array_def est_key_array_def
  get_duration_cache_def get_key_change_input_indices_def broadcast_gt_def
  broadcast_segments_def set_slice_def set_from_def results_row_def py_index_def
  two_key_piece_def two_key_state_def example_label_methods_def
  example_chord_entry_def chord_of_def example_key_def second_key_def zero_chord_entry_def
  zero_key_entry_def Let_def eval_nat_numeral

theorem get_results_df_broadcast_and_skip_witness:
  "\<exists>rows.
     get_results_df example_label_methods (\<lambda>start stop m. 1) two_key_piece two_key_state
       TPC TPC TPC TPC = Inr rows \<and>
     map duration rows = [1, 1, 1] \<and>
     map (\<lambda>row. gt row F_chord) rows = [StrV ''C:M'', StrV ''C:M'', StrV ''G:m''] \<and>
     map (\<lambda>row. est row F_chord) rows = [StrV ''C:M'', StrV ''G:m'', StrV ''G:m''] \<and>
     map (\<lambda>row. gt row F_key) rows = [StrV ''C:M'', StrV ''C:M'', StrV ''G:m''] \<and>
     map (\<lambda>row. est row F_key) rows = [StrV ''C:M'', StrV ''C:M'', StrV ''G:m''] \<and>
     map (\<lambda>row. gt row F_root) rows = [IntV 15, IntV 15, IntV 22] \<and>
     map (\<lambda>row. est row F_root) rows = [IntV 15, IntV 22, IntV 22] \<and>
     map (\<lambda>row. gt row F_tonic) rows = [IntV 15, IntV 15, IntV 16] \<and>
     map (\<lambda>row. est row F_tonic) rows = [IntV 15, IntV 15, IntV 16] \<and>
     sum_list (map duration rows) = 3"
proof -
  obtain rows where run:
    "get_results_df example_label_methods (\<lambda>start stop m. 1) two_key_piece two_key_state
       TPC TPC TPC TPC = Inr rows"
    by (simp add: results_eval)
  have f: "sp_chord_changes two_key_piece = [0, 2]" "sp_key_changes two_key_piece = [0, 1]"
    "sp_chords two_key_piece =
       [chord_of 15 MAJOR 0 (0, 0) (2, 0) 2, chord_of 22 MINOR 0 (2, 0) (3, 0) 1]"
    "sp_keys two_key_piece = [example_key, second_key]"
    "length (sp_notes two_key_piece) = 4"
    "st_chord_changes two_key_state = [0, 1, 4]" "st_key_changes two_key_state = [0, 2, 4]"
    "st_chords two_key_state = [0, 1]" "st_chord_pitches two_key_state = [(), ()]"
    "st_keys two_key_state = [0, 1]"
    by (simp_all add: two_key_piece_def two_key_state_def)
  have h: "sorted (sp_chord_changes two_key_piece)"
    "length (sp_chords two_key_piece) = length (sp_chord_changes two_key_piece)"
    "sorted (sp_key_changes two_key_piece)"
    "length (sp_keys two_key_piece) = length (sp_key_changes two_key_piece)"
    "sorted (st_chord_changes two_key_state)" "sorted (st_key_changes two_key_state)"
    by (simp_all add: f)
  have c: "get_duration_cache (\<lambda>start stop m. 1) two_key_piece = Inr [1, 1, 0, 1]"
    by (simp add: get_duration_cache_def two_key_piece_def)
  define P where "P = (\<lambda>(gc :: chord_entry list) (gk :: key_entry list) (cache :: rat list)
       (j :: nat) (row :: result_row).
       cache ! j \<noteq> 0 \<and> duration row = cache ! j \<and>
       (let l = ke_label (gk ! j);
            k = (if l < 0 then int (length (key_label_list example_label_methods TPC)) + l else l)
        in 0 \<le> k \<and> k < int (length (key_label_list example_label_methods TPC)) \<and>
           gt row F_key = StrV (key_label_list example_label_methods TPC ! nat k)) \<and>
       (let l = ce_label (gc ! j);
            k = (if l < 0 then int (length (chord_label_list example_label_methods TPC)) + l else l)
        in 0 \<le> k \<and> k < int (length (chord_label_list example_label_methods TPC)) \<and>
           gt row F_chord = StrV (chord_label_list example_label_methods TPC ! nat k)) \<and>
       (let l = ke_label (est_key_array example_label_methods two_key_piece two_key_state TPC TPC ! j);
            k = (if l < 0 then int (length (key_label_list example_label_methods TPC)) + l else l)
        in 0 \<le> k \<and> k < int (length (key_label_list example_label_methods TPC)) \<and>
           est row F_key = StrV (key_label_list example_label_methods TPC ! nat k)) \<and>
       (let l = ce_label (est_chord_array example_label_methods two_key_piece two_key_state TPC TPC ! j);
            k = (if l < 0 then int (length (chord_label_list example_label_methods TPC)) + l else l)
        in 0 \<le> k \<and> k < int (length (chord_label_list example_label_methods TPC)) \<and>
           est row F_chord = StrV (chord_label_list example_label_methods TPC ! nat k)) \<and>
       gt row F_tonic = IntV (ke_tonic (gk ! j)) \<and>
       gt row F_mode = ke_mode (gk ! j) \<and>
       gt row F_root = IntV (ce_root (gc ! j)) \<and>
       gt row F_chord_type = ce_chord_type (gc ! j) \<and>
       gt row F_triad = ce_triad (gc ! j) \<and>
       gt row F_inversion = IntV (ce_inversion (gc ! j)) \<and>
       gt row F_pitches = ce_pitches (gc ! j) \<and>
       gt row F_is_default = BoolV (ce_is_default (gc ! j)) \<and>
       est row F_tonic = IntV (ke_tonic (est_key_array example_label_methods two_key_piece two_key_state TPC TPC ! j)) \<and>
       est row F_mode = ke_mode (est_key_array example_label_methods two_key_piece two_key_state TPC TPC ! j) \<and>
       est row F_root = IntV (ce_root (est_chord_array example_label_methods two_key_piece two_key_state TPC TPC ! j)) \<and>
       est row F_chord_type = ce_chord_type (est_chord_array example_label_methods two_key_piece two_key_state TPC TPC ! j) \<and>
       est row F_triad = ce_triad (est_chord_array example_label_methods two_key_piece two_key_state TPC TPC ! j) \<and>
       est row F_inversion = IntV (ce_inversion (est_chord_array example_label_methods two_key_piece two_key_state TPC TPC ! j)) \<and>
       est row F_pitches = ce_pitches (est_chord_array example_label_methods two_key_piece two_key_state TPC TPC ! j) \<and>
       est row F_is_default = BoolV (ce_is_default (est_chord_array example_label_methods two_key_piece two_key_state TPC TPC ! j)))"
  from get_results_df_broadcast_and_skip[OF run h]
  obtain gc gk cache where
    cache: "get_duration_cache (\<lambda>start stop m. 1) two_key_piece = Inr cache" and
    g: "\<forall>i j. in_gt_segment (sp_chord_changes two_key_piece) i j \<and>
               j < length (sp_notes two_key_piece) \<longrightarrow>
          gc ! j = gt_chord_entry example_label_methods TPC (sp_chords two_key_piece ! i)" and
    k: "\<forall>i j. in_gt_segment
                 (map (nth (sp_chord_changes two_key_piece)) (sp_key_changes two_key_piece)) i j \<and>
               j < length (sp_notes two_key_piece) \<longrightarrow>
          gk ! j = gt_key_entry example_label_methods TPC (sp_keys two_key_piece ! i)" and
    e: "\<forall>i j. in_est_segment (st_chord_changes two_key_state) i j \<and>
               i < length (st_chords two_key_state) \<and>
               i < length (st_chord_pitches two_key_state) \<and>
               j < length (sp_notes two_key_piece) \<longrightarrow>
          est_chord_array example_label_methods two_key_piece two_key_state TPC TPC ! j =
            est_chord_entry example_label_methods TPC TPC (st_chords two_key_state ! i)
              (st_chord_pitches two_key_state ! i)" and
    ek: "\<forall>i j. in_est_segment (st_key_changes two_key_state) i j \<and>
               i < length (st_keys two_key_state) \<and>
               j < length (sp_notes two_key_piece) \<longrightarrow>
          est_key_array example_label_methods two_key_piece two_key_state TPC TPC ! j =
            est_key_entry example_label_methods TPC TPC (st_keys two_key_state ! i)" and
    l: "list_all2 (P gc gk cache)
          (filter (\<lambda>j. cache ! j \<noteq> 0)
             [0..<min (length cache) (length (sp_notes two_key_piece))]) rows" and
    s: "sum_list (map duration rows) = sum_list (take (length (sp_notes two_key_piece)) cache)"
    unfolding P_def by blast
  from cache c have ce: "cache = [1, 1, 0, 1]" by simp
  have gcs: "gc ! 0 = example_chord_entry 0 15 MAJOR" "gc ! 1 = example_chord_entry 0 15 MAJOR"
    "gc ! 3 = example_chord_entry 1 22 MINOR"
    using g[rule_format, of 0 0] g[rule_format, of 0 1] g[rule_format, of 1 3]
    by (simp_all add: f in_gt_segment_def example_label_methods_def chord_of_def)
  have gks: "gk ! 0 = \<lparr>ke_label = 0, ke_tonic = 15, ke_mode = ModeV KM_MAJOR\<rparr>"
    "gk ! 1 = \<lparr>ke_label = 0, ke_tonic = 15, ke_mode = ModeV KM_MAJOR\<rparr>"
    "gk ! 3 = \<lparr>ke_label = 1, ke_tonic = 16, ke_mode = ModeV KM_MINOR\<rparr>"
    using k[rule_format, of 0 0] k[rule_format, of 0 1] k[rule_format, of 1 3]
    by (simp_all add: f in_gt_segment_def example_label_methods_def example_key_def
          second_key_def)
  have ecs: "est_chord_array example_label_methods two_key_piece two_key_state TPC TPC ! 0 = example_chord_entry 0 15 MAJOR"
    "est_chord_array example_label_methods two_key_piece two_key_state TPC TPC ! 1 = example_chord_entry 1 22 MINOR"
    "est_chord_array example_label_methods two_key_piece two_key_state TPC TPC ! 3 = example_chord_entry 1 22 MINOR"
    using e[rule_format, of 0 0] e[rule_format, of 1 1] e[rule_format, of 1 3]
    by (simp_all add: f in_est_segment_def example_label_methods_def)
  have eks: "est_key_array example_label_methods two_key_piece two_key_state TPC TPC ! 0 = \<lparr>ke_label = 0, ke_tonic = 15, ke_mode = ModeV KM_MAJOR\<rparr>"
    "est_key_array example_label_methods two_key_piece two_key_state TPC TPC ! 1 = \<lparr>ke_label = 0, ke_tonic = 15, ke_mode = ModeV KM_MAJOR\<rparr>"
    "est_key_array example_label_methods two_key_piece two_key_state TPC TPC ! 3 = \<lparr>ke_label = 1, ke_tonic = 16, ke_mode = ModeV KM_MINOR\<rparr>"
    using ek[rule_format, of 0 0] ek[rule_format, of 0 1] ek[rule_format, of 1 3]
    by (simp_all add: f in_est_segment_def example_label_methods_def)
  have idx: "filter (\<lambda>j. cache ! j \<noteq> 0)
             [0..<min (length cache) (length (sp_notes two_key_piece))] = [0, 1, 3]"
    by (simp add: ce f eval_nat_numeral upt_rec)
  from l obtain r0 r1 r3 where
    rows: "rows = [r0, r1, r3]" and
    p0: "P gc gk cache 0 r0" and p1: "P gc gk cache 1 r1" and p3: "P gc gk cache 3 r3"
    unfolding idx list_all2_Cons1 list_all2_Nil by blast
  have ls: "chord_label_list example_label_methods TPC = [''C:M'', ''G:m'']"
    "key_label_list example_label_methods TPC = [''C:M'', ''G:m'']"
    by (simp_all add: example_label_methods_def)
  have q0: "duration r0 = 1 \<and> gt r0 F_chord = StrV ''C:M'' \<and> est r0 F_chord = StrV ''C:M'' \<and>
            gt r0 F_key = StrV ''C:M'' \<and> est r0 F_key = StrV ''C:M'' \<and>
            gt r0 F_root = IntV 15 \<and> est r0 F_root = IntV 15 \<and>
            gt r0 F_tonic = IntV 15 \<and> est r0 F_tonic = IntV 15"
    using p0 unfolding P_def gcs gks ecs eks ls ce
    by (simp add: example_chord_entry_def Let_def)
  have q1: "duration r1 = 1 \<and> gt r1 F_chord = StrV ''C:M'' \<and> est r1 F_chord = StrV ''G:m'' \<and>
            gt r1 F_key = StrV ''C:M'' \<and> est r1 F_key = StrV ''C:M'' \<and>
            gt r1 F_root = IntV 15 \<and> est r1 F_root = IntV 22 \<and>
            gt r1 F_tonic = IntV 15 \<and> est r1 F_tonic = IntV 15"
    using p1 unfolding P_def gcs gks ecs eks ls ce
    by (simp add: example_chord_entry_def Let_def)
  have q3: "duration r3 = 1 \<and> gt r3 F_chord = StrV ''G:m'' \<and> est r3 F_chord = StrV ''G:m'' \<and>
            gt r3 F_key = StrV ''G:m'' \<and> est r3 F_key = StrV ''G:m'' \<and>
            gt r3 F_root = IntV 22 \<and> est r3 F_root = IntV 22 \<and>
            gt r3 F_tonic = IntV 16 \<and> est r3 F_tonic = IntV 16"
    using p3 unfolding P_def gcs gks ecs eks ls ce
    by (simp add: example_chord_entry_def Let_def eval_nat_numeral)
  from s have sm: "sum_list (map duration rows) = 3" by (simp add: ce f)
  show ?thesis
    apply (rule exI[of _ rows])
    using run q0 q1 q3 sm unfolding rows by simp
qed
section \<open>The colours of \<^verbatim>\<open>get_results_annotation_df\<close>\<close>

text \<open>
  The colour of a chord label has the three tiers: green when root, chord type and
  inversion agree, orange when the roots and the triad reductions of the chord types
  agree, red otherwise. The colour of a key label is always red: the ground-truth tonic
  is a character of the key label string and never equals the estimated tonic, an integer.
\<close>

lemmas annotation_eval =
  get_results_annotation_df_def annot_gt_chords_def annot_est_chords_def annot_gt_keys_def
  annot_est_keys_def annotation_step_def key_rows_def chord_rows_def label_row_def
  key_color_def chord_color_def unpack2_def no_prev_labels_def
  get_duration_cache_def get_key_change_input_indices_def broadcast_gt_def
  broadcast_segments_def set_slice_def set_from_def py_index_def
  results_piece_def example_piece_def example_state_def example_annotation_methods_def
  note_span_def chord_of_def example_key_def Let_def eval_nat_numeral

lemma key_color_red: "key_color gt_tonic gt_mode est_tonic est_mode = ''red''"
  by (simp add: key_color_def)

lemma key_rows_red:
  "\<forall>row \<in> set (key_rows prev note gt_key_string est_key_string gt_key est_key).
     a_color_name row = ''red''"
  by (simp add: key_rows_def label_row_def key_color_red)

lemma chord_color_tiers:
  "chord_color triad (gt_root, gt_type, gt_inversion) (est_root, est_type, est_inversion) =
     (if gt_root = est_root \<and> gt_type = est_type \<and> gt_inversion = est_inversion then ''green''
      else if gt_root = est_root \<and> triad gt_type = triad est_type then ''orange''
      else ''red'')"
  by (simp add: chord_color_def)

text \<open>
  Claim C7, at an input on which the code departs from it. The piece and the estimate
  have the same key, C major, and the same two chords. With the key label \<^verbatim>\<open>"CM"\<close>
  the key row comes out red, not green, while both chord rows are green; with the key
  label \<^verbatim>\<open>"C:M"\<close>, whose length is not two, unpacking the ground-truth key raises
  \<^verbatim>\<open>ValueError\<close> at the first note.
\<close>

theorem get_results_annotation_df_equal_keys_red:
  "get_results_annotation_df (example_annotation_methods [''CM'']) (\<lambda>start stop m. 1)
     example_state results_piece TPC TPC True () False =
     Inr [\<lparr>a_label = ''CM'', a_mc = 0, a_mc_onset = 0, a_mn_onset = 0, a_color_name = ''red''\<rparr>,
          \<lparr>a_label = ''C:M'', a_mc = 0, a_mc_onset = 0, a_mn_onset = 0, a_color_name = ''green''\<rparr>,
          \<lparr>a_label = ''G:m'', a_mc = 2, a_mc_onset = 0, a_mn_onset = 0, a_color_name = ''green''\<rparr>] \<and>
   get_results_annotation_df (example_annotation_methods [''C:M'']) (\<lambda>start stop m. 1)
     example_state results_piece TPC TPC True () False = Inl ValueError"
  by (simp add: annotation_eval)

end
